theory Spec2Isabelle
  imports Main
begin

section \<open>Go values shared by the bundler and the schema proxy\<close>

subsection \<open>Errors\<close>

text \<open>
  A Go \<open>error\<close> is an interface value that may be nil: it is an \<open>error option\<close> here.
  \<open>ErrInvalidModel\<close> is the package's sentinel, \<open>ErrorString\<close> is what \<open>errors.New\<close>
  builds, \<open>JoinError\<close> is what \<open>errors.Join\<close> builds.
\<close>

datatype error = ErrInvalidModel | ErrorString string | JoinError "error list"

primrec nonNil :: "'a option list \<Rightarrow> 'a list" where
  "nonNil [] = []"
| "nonNil (x # xs) = (case x of None \<Rightarrow> nonNil xs | Some e \<Rightarrow> e # nonNil xs)"

text \<open>\<open>errors.Join\<close> drops the nil errors and returns nil when none is left.\<close>

definition errors_Join :: "error option list \<Rightarrow> error option" where
  "errors_Join errs = (if nonNil errs = [] then None else Some (JoinError (nonNil errs)))"

text \<open>
  \<open>errors.Is\<close>: the error is the target, or a joined error wraps one that is. Go compares
  the two by identity, the datatype by structure; the two agree on the sentinel
  \<open>ErrInvalidModel\<close>, a constructor of its own and the only target looked for here.
\<close>

fun errors_Is :: "error \<Rightarrow> error \<Rightarrow> bool" where
  "errors_Is (JoinError es) t = (JoinError es = t \<or> (\<exists>e \<in> set es. errors_Is e t))"
| "errors_Is e t = (e = t)"

subsection \<open>Strings\<close>

fun strings_Contains :: "string \<Rightarrow> string \<Rightarrow> bool" where
  "strings_Contains [] substr = (substr = [])"
| "strings_Contains (c # cs) substr =
     (take (length substr) (c # cs) = substr \<or> strings_Contains cs substr)"

text \<open>
  \<open>strings.Split(s, "#/")\<close>, the only separator the bundler splits on: the pieces of \<open>s\<close>
  between the occurrences of \<open>#/\<close>, read from the left. The first argument accumulates the
  current piece, reversed.
\<close>

fun strings_Split_hashSlash :: "string \<Rightarrow> string \<Rightarrow> string list" where
  "strings_Split_hashSlash acc [] = [rev acc]"
| "strings_Split_hashSlash acc [a] = [rev (a # acc)]"
| "strings_Split_hashSlash acc (a # b # cs) =
     (if a = CHR ''#'' \<and> b = CHR ''/'' then rev acc # strings_Split_hashSlash [] cs
      else strings_Split_hashSlash (a # acc) (b # cs))"

subsection \<open>YAML nodes in a store\<close>

text \<open>
  A \<open>*yaml.Node\<close> is an address. A node's \<open>Content\<close> is a Go slice of node pointers:
  a window (offset, length) on a backing array, so that assigning one node's \<open>Content\<close>
  to another makes both read the same array.
\<close>

datatype yaml_Kind = ZeroKind | DocumentNode | SequenceNode | MappingNode | ScalarNode | AliasNode

record slice =
  sl_array :: nat
  sl_off :: nat
  sl_len :: nat

record yaml_Node =
  Kind :: yaml_Kind
  Value :: string
  Content :: slice

datatype Level = LevelDebug | LevelWarn

text \<open>A call of a logger: the logger, the level, the message, and the one key and value.\<close>

type_synonym log_record = "nat \<times> Level \<times> string \<times> string \<times> string"

record world =
  nodes :: "nat \<Rightarrow> yaml_Node"
  arrays :: "nat \<Rightarrow> nat list"
  logs :: "log_record list"

definition elems :: "world \<Rightarrow> slice \<Rightarrow> nat list" where
  "elems w s = take (sl_len s) (drop (sl_off s) (arrays w (sl_array s)))"

definition children :: "world \<Rightarrow> nat \<Rightarrow> nat list" where
  "children w n = elems w (Content (nodes w n))"

subsection \<open>References, indexes, the rolodex, the document\<close>

text \<open>
  The index package is not part of the sources at hand. An \<open>index.Reference\<close> is the
  record of the fields the bundler reads; \<open>Index_SpecAbsolutePath\<close> is what
  \<open>Index.GetSpecAbsolutePath()\<close> returns for the reference's owning index. A
  \<open>*index.SpecIndex\<close> is the record of what its getters return; its two lookups,
  \<open>FindComponent\<close> and \<open>SearchIndexForReference\<close>, are fields. \<open>SearchIndexForReference\<close>
  returns the reference found and the index it was found in, of which the bundler reads
  the absolute path only: the second component of the pair. Both lookups are taken to
  write nothing; \<open>FindComponent\<close>, which the root pass calls between two assignments, may
  read the store. Pointers the bundler never tests against nil (a reference's node, an
  index of the rolodex, a root node) are plain values; those it tests (the model, its
  rolodex, a mapped reference, a logger) are options.
\<close>

record Reference =
  FullDefinition :: string
  Definition :: string
  Node :: nat
  Index_SpecAbsolutePath :: string
  Circular :: bool

record SpecIndex =
  GetSpecAbsolutePath :: string
  GetRootNode :: nat
  GetMappedReferences :: "string \<Rightarrow> Reference option"
  GetRawReferencesSequenced :: "Reference list"
  GetLogger :: "nat option"
  FindComponent :: "world \<Rightarrow> string \<Rightarrow> Reference option"
  SearchIndexForReference :: "string \<Rightarrow> (Reference \<times> string) option"

record rolodex =
  GetRootIndex :: SpecIndex
  GetIndexes :: "SpecIndex list"

record document =
  Rolodex :: "rolodex option"

text \<open>What a bundling function returns: the bytes (nil is \<open>None\<close>) and the error.\<close>

type_synonym bundled = "string option \<times> error option"

section \<open>Composed bundling: the configuration and the entry points\<close>

record BundleCompositionConfig =
  Delimiter :: string

text \<open>
  \<open>compose\<close>. The configuration is a pointer the caller keeps: the second component of
  the result is the caller's configuration after the call (an empty delimiter has been
  overwritten with the default). What follows the two guards (\<open>handleIndex\<close>,
  \<open>processReference\<close>, \<open>remapIndex\<close>, the rendering) is built from functions that are not
  part of the sources at hand: it is the parameter \<open>composeIndexes\<close>, which receives the
  configuration in effect, the model, its rolodex and the store.
\<close>

definition compose ::
  "(BundleCompositionConfig \<Rightarrow> document \<Rightarrow> rolodex \<Rightarrow> world \<Rightarrow> bundled \<times> world) \<Rightarrow>
   document option \<Rightarrow> BundleCompositionConfig option \<Rightarrow> world \<Rightarrow>
   bundled \<times> BundleCompositionConfig option \<times> world" where
  "compose composeIndexes model compositionConfig w =
    (let checked = (\<lambda>cfg caller.
           case model of
             None \<Rightarrow> ((None, Some (ErrorString ''model or rolodex is nil'')), caller, w)
           | Some m \<Rightarrow>
               (case Rolodex m of
                  None \<Rightarrow> ((None, Some (ErrorString ''model or rolodex is nil'')), caller, w)
                | Some r \<Rightarrow> (let (res, w') = composeIndexes cfg m r w in (res, caller, w'))))
     in case compositionConfig of
          None \<Rightarrow> checked \<lparr>Delimiter = ''__''\<rparr> None
        | Some c \<Rightarrow>
            (let c' = (if Delimiter c = [] then c\<lparr>Delimiter := ''__''\<rparr> else c)
             in if strings_Contains (Delimiter c') ''#'' \<or> strings_Contains (Delimiter c') ''/''
                then ((None, Some (ErrorString
                        ''composition delimiter cannot contain '#' or '/' characters'')), Some c', w)
                else if strings_Contains (Delimiter c') '' ''
                then ((None, Some (ErrorString ''composition delimiter cannot contain spaces'')),
                      Some c', w)
                else checked c' (Some c')))"

definition BundleDocumentComposed ::
  "(BundleCompositionConfig \<Rightarrow> document \<Rightarrow> rolodex \<Rightarrow> world \<Rightarrow> bundled \<times> world) \<Rightarrow>
   document option \<Rightarrow> BundleCompositionConfig option \<Rightarrow> world \<Rightarrow>
   bundled \<times> BundleCompositionConfig option \<times> world" where
  "BundleDocumentComposed composeIndexes model compositionConfig w =
     compose composeIndexes model compositionConfig w"

text \<open>
  \<open>BundleBytesComposed\<close>. \<open>libopenapi.NewDocumentWithConfiguration\<close> and \<open>BuildV3Model\<close>
  are parameters: the first returns a document and an error, the second the model (nil is
  \<open>None\<close>) with the store it lives in, and the list of build errors. The store is created
  and dropped inside the call, so the result is the bytes, the error and the caller's
  composition configuration.
\<close>

definition BundleBytesComposed ::
  "(string \<Rightarrow> 'cfg \<Rightarrow> 'doc \<times> error option) \<Rightarrow>
   ('doc \<Rightarrow> (document option \<times> error option list) \<times> world) \<Rightarrow>
   (BundleCompositionConfig \<Rightarrow> document \<Rightarrow> rolodex \<Rightarrow> world \<Rightarrow> bundled \<times> world) \<Rightarrow>
   string \<Rightarrow> 'cfg \<Rightarrow> BundleCompositionConfig option \<Rightarrow>
   bundled \<times> BundleCompositionConfig option" where
  "BundleBytesComposed newDocumentWithConfiguration buildV3Model composeIndexes
       bytes configuration compositionConfig =
    (let (doc, err) = newDocumentWithConfiguration bytes configuration
     in if err \<noteq> None then ((None, err), compositionConfig)
        else
          (let ((v3Doc, errs), w) = buildV3Model doc;
               err = errors_Join errs
           in if v3Doc = None \<or> length errs > 0
              then ((None, errors_Join [Some ErrInvalidModel, err]), compositionConfig)
              else
                (let ((bundledBytes, e), cfg', w') = compose composeIndexes v3Doc compositionConfig w
                 in ((bundledBytes, errors_Join [err, e]), cfg'))))"

section \<open>The schema proxy\<close>

text \<open>
  A \<open>*Schema\<close> is an address in a store of schemas; \<open>new(Schema)\<close> takes the next free
  address. \<open>low.BuildModel\<close> and the schema's own \<open>Build\<close> belong to files that are not at
  hand: they are the fields of \<open>schema_builder\<close>, with the zero schema. The proxy's field \<open>idx\<close> is
  \<open>sp_idx\<close> here.
\<close>

record ('s, 'i) SchemaProxy =
  kn :: "nat option"
  vn :: "nat option"
  sp_idx :: "'i option"
  rendered :: "nat option"
  buildError :: "error option"

record 's schema_store =
  schemas :: "nat \<Rightarrow> 's option"
  next_schema :: nat

record ('s, 'i) schema_builder =
  zero_Schema :: 's
  low_BuildModel :: "nat option \<Rightarrow> 's \<Rightarrow> 's \<times> error option"
  schema_Build :: "'s \<Rightarrow> nat option \<Rightarrow> 'i option \<Rightarrow> 's \<times> error option"

definition Build :: "('s, 'i) SchemaProxy \<Rightarrow> nat option \<Rightarrow> 'i option \<Rightarrow> ('s, 'i) SchemaProxy \<times> error option" where
  "Build sp root i = (sp\<lparr>vn := root, sp_idx := i\<rparr>, None)"

definition Schema ::
  "('s, 'i) schema_builder \<Rightarrow> ('s, 'i) SchemaProxy \<Rightarrow> 's schema_store \<Rightarrow>
   nat option \<times> ('s, 'i) SchemaProxy \<times> 's schema_store" where
  "Schema b sp h =
    (case rendered sp of
       Some r \<Rightarrow> (Some r, sp, h)
     | None \<Rightarrow>
        (let schema = next_schema h;
             (s1, _) = low_BuildModel b (vn sp) (zero_Schema b);
             (s2, err) = schema_Build b s1 (vn sp) (sp_idx sp);
             h' = h\<lparr>schemas := (schemas h)(schema := Some s2), next_schema := Suc schema\<rparr>
         in case err of
              Some e \<Rightarrow> (None, sp\<lparr>buildError := Some e\<rparr>, h')
            | None \<Rightarrow> (Some schema, sp\<lparr>rendered := Some schema\<rparr>, h')))"

definition GetBuildError :: "('s, 'i) SchemaProxy \<Rightarrow> error option" where
  "GetBuildError sp = buildError sp"

text \<open>The zero value of the proxy struct, on which nothing has run yet.\<close>

definition zero_SchemaProxy :: "('s, 'i) SchemaProxy" where
  "zero_SchemaProxy = \<lparr>kn = None, vn = None, sp_idx = None, rendered = None, buildError = None\<rparr>"

section \<open>Inline bundling\<close>

subsection \<open>Outcomes\<close>

text \<open>
  A walk over the nodes reads the store through pointers, so it need not end on a store
  whose nodes form a cycle: it takes fuel, one unit for each level of nesting, and
  \<open>OutOfFuel\<close> stands for a walk that was cut. \<open>Panicked\<close> is a Go panic: an index out of
  range or a nil pointer dereference.
\<close>

datatype 'a outcome = Returned 'a | Panicked | OutOfFuel

text \<open>A run that writes the store ends normally or in a panic, with the store as it left it.\<close>

datatype exec = Normal world | Abrupt world

fun world_of :: "exec \<Rightarrow> world" where
  "world_of (Normal w) = w"
| "world_of (Abrupt w) = w"

subsection \<open>Pinning the references of discriminated unions\<close>

text \<open>
  \<open>pinned[refIdx.GetSpecAbsolutePath() + ref.Definition]\<close>, when the index finds the
  reference.
\<close>

definition pin :: "SpecIndex \<Rightarrow> string \<Rightarrow> string set \<Rightarrow> string set" where
  "pin idx refValue pinned =
     (case SearchIndexForReference idx refValue of
        None \<Rightarrow> pinned
      | Some (ref, refIdxPath) \<Rightarrow> insert (refIdxPath @ Definition ref) pinned)"

text \<open>The inner loop of \<open>walkDiscriminatorMapping\<close>, over the content of the mapping node.\<close>

fun walkDiscriminatorMapping_entries ::
  "SpecIndex \<Rightarrow> world \<Rightarrow> nat list \<Rightarrow> string set \<Rightarrow> string set outcome" where
  "walkDiscriminatorMapping_entries idx w [] pinned = Returned pinned"
| "walkDiscriminatorMapping_entries idx w [k] pinned = Panicked"
| "walkDiscriminatorMapping_entries idx w (k # v # rest) pinned =
     walkDiscriminatorMapping_entries idx w rest (pin idx (Value (nodes w v)) pinned)"

text \<open>The outer loop, over the content of the discriminator node.\<close>

fun walkDiscriminatorMapping_keys ::
  "SpecIndex \<Rightarrow> world \<Rightarrow> nat list \<Rightarrow> string set \<Rightarrow> string set outcome" where
  "walkDiscriminatorMapping_keys idx w [] pinned = Returned pinned"
| "walkDiscriminatorMapping_keys idx w [k] pinned =
     (if Value (nodes w k) = ''mapping'' then Panicked else Returned pinned)"
| "walkDiscriminatorMapping_keys idx w (k # v # rest) pinned =
     (if Value (nodes w k) = ''mapping''
      then (case walkDiscriminatorMapping_entries idx w (children w v) pinned of
              Returned pinned' \<Rightarrow> walkDiscriminatorMapping_keys idx w rest pinned'
            | Panicked \<Rightarrow> Panicked
            | OutOfFuel \<Rightarrow> OutOfFuel)
      else walkDiscriminatorMapping_keys idx w rest pinned)"

definition walkDiscriminatorMapping ::
  "SpecIndex \<Rightarrow> world \<Rightarrow> nat \<Rightarrow> string set \<Rightarrow> string set outcome" where
  "walkDiscriminatorMapping idx w discriminatorNode pinned =
     (if Kind (nodes w discriminatorNode) \<noteq> MappingNode then Returned pinned
      else walkDiscriminatorMapping_keys idx w (children w discriminatorNode) pinned)"

text \<open>The inner loop of \<open>walkUnionRefs\<close>, over the content of one item of the sequence.\<close>

fun walkUnionRefs_item ::
  "SpecIndex \<Rightarrow> world \<Rightarrow> nat list \<Rightarrow> string set \<Rightarrow> string set outcome" where
  "walkUnionRefs_item idx w [] pinned = Returned pinned"
| "walkUnionRefs_item idx w [k] pinned = Panicked"
| "walkUnionRefs_item idx w (k # v # rest) pinned =
     (if Value (nodes w k) \<noteq> ''$ref'' \<or> Kind (nodes w v) \<noteq> ScalarNode
      then walkUnionRefs_item idx w rest pinned
      else walkUnionRefs_item idx w rest (pin idx (Value (nodes w v)) pinned))"

fun walkUnionRefs_items ::
  "SpecIndex \<Rightarrow> world \<Rightarrow> nat list \<Rightarrow> string set \<Rightarrow> string set outcome" where
  "walkUnionRefs_items idx w [] pinned = Returned pinned"
| "walkUnionRefs_items idx w (item # rest) pinned =
     (if Kind (nodes w item) \<noteq> MappingNode then walkUnionRefs_items idx w rest pinned
      else (case walkUnionRefs_item idx w (children w item) pinned of
              Returned pinned' \<Rightarrow> walkUnionRefs_items idx w rest pinned'
            | Panicked \<Rightarrow> Panicked
            | OutOfFuel \<Rightarrow> OutOfFuel))"

definition walkUnionRefs ::
  "SpecIndex \<Rightarrow> world \<Rightarrow> nat option \<Rightarrow> string set \<Rightarrow> string set outcome" where
  "walkUnionRefs idx w seq pinned =
     (case seq of
        None \<Rightarrow> Returned pinned
      | Some s \<Rightarrow>
          if Kind (nodes w s) \<noteq> SequenceNode then Returned pinned
          else walkUnionRefs_items idx w (children w s) pinned)"

text \<open>
  The three locals of \<open>collectDiscriminatorMappingValues\<close>: the values of the keys
  \<open>discriminator\<close>, \<open>oneOf\<close> and \<open>anyOf\<close> seen so far (nil is \<open>None\<close>).
\<close>

type_synonym union_locals = "nat option \<times> nat option \<times> nat option"

definition note_key :: "string \<Rightarrow> nat \<Rightarrow> union_locals \<Rightarrow> union_locals" where
  "note_key key v l =
     (case l of (discriminator, oneOf, anyOf) \<Rightarrow>
        if key = ''discriminator'' then (Some v, oneOf, anyOf)
        else if key = ''oneOf'' then (discriminator, Some v, anyOf)
        else if key = ''anyOf'' then (discriminator, oneOf, Some v)
        else (discriminator, oneOf, anyOf))"

text \<open>
  The loop over a sequence node's content and the loop over a mapping node's key/value
  pairs; \<open>walk\<close> is the recursive call.
\<close>

fun collect_sequence ::
  "(nat \<Rightarrow> string set \<Rightarrow> string set outcome) \<Rightarrow> nat list \<Rightarrow> string set \<Rightarrow> string set outcome" where
  "collect_sequence walk [] pinned = Returned pinned"
| "collect_sequence walk (c # cs) pinned =
     (case walk c pinned of
        Returned pinned' \<Rightarrow> collect_sequence walk cs pinned'
      | Panicked \<Rightarrow> Panicked
      | OutOfFuel \<Rightarrow> OutOfFuel)"

fun collect_pairs ::
  "(nat \<Rightarrow> string set \<Rightarrow> string set outcome) \<Rightarrow> world \<Rightarrow> nat list \<Rightarrow> union_locals \<Rightarrow>
   string set \<Rightarrow> (union_locals \<times> string set) outcome" where
  "collect_pairs walk w [] l pinned = Returned (l, pinned)"
| "collect_pairs walk w [k] l pinned = Panicked"
| "collect_pairs walk w (k # v # rest) l pinned =
     (case walk v pinned of
        Returned pinned' \<Rightarrow> collect_pairs walk w rest (note_key (Value (nodes w k)) v l) pinned'
      | Panicked \<Rightarrow> Panicked
      | OutOfFuel \<Rightarrow> OutOfFuel)"

text \<open>The block after the loop: it runs when a \<open>discriminator\<close> key was seen.\<close>

definition pin_union ::
  "SpecIndex \<Rightarrow> world \<Rightarrow> union_locals \<Rightarrow> string set \<Rightarrow> string set outcome" where
  "pin_union idx w l pinned =
     (case l of (discriminator, oneOf, anyOf) \<Rightarrow>
        (case discriminator of
           None \<Rightarrow> Returned pinned
         | Some d \<Rightarrow>
             (case walkDiscriminatorMapping idx w d pinned of
                Returned p1 \<Rightarrow>
                  (case walkUnionRefs idx w oneOf p1 of
                     Returned p2 \<Rightarrow> walkUnionRefs idx w anyOf p2
                   | Panicked \<Rightarrow> Panicked
                   | OutOfFuel \<Rightarrow> OutOfFuel)
              | Panicked \<Rightarrow> Panicked
              | OutOfFuel \<Rightarrow> OutOfFuel)))"

text \<open>A document node with content stands for its first child.\<close>

definition unwrap_document :: "world \<Rightarrow> nat \<Rightarrow> nat" where
  "unwrap_document w n =
     (case children w n of
        [] \<Rightarrow> n
      | c # _ \<Rightarrow> if Kind (nodes w n) = DocumentNode then c else n)"

fun collectDiscriminatorMappingValues ::
  "nat \<Rightarrow> SpecIndex \<Rightarrow> world \<Rightarrow> nat \<Rightarrow> string set \<Rightarrow> string set outcome" where
  "collectDiscriminatorMappingValues 0 idx w n pinned = OutOfFuel"
| "collectDiscriminatorMappingValues (Suc fuel) idx w n pinned =
     (case Kind (nodes w (unwrap_document w n)) of
        SequenceNode \<Rightarrow>
          collect_sequence (collectDiscriminatorMappingValues fuel idx w)
            (children w (unwrap_document w n)) pinned
      | MappingNode \<Rightarrow>
          (case collect_pairs (collectDiscriminatorMappingValues fuel idx w) w
                  (children w (unwrap_document w n)) (None, None, None) pinned of
             Returned (l, pinned') \<Rightarrow> pin_union idx w l pinned'
           | Panicked \<Rightarrow> Panicked
           | OutOfFuel \<Rightarrow> OutOfFuel)
      | _ \<Rightarrow> Returned pinned)"

text \<open>The start of \<open>bundle\<close>: the root index first, then the indexes of the rolodex.\<close>

fun collect_indexes ::
  "nat \<Rightarrow> world \<Rightarrow> SpecIndex list \<Rightarrow> string set \<Rightarrow> string set outcome" where
  "collect_indexes fuel w [] pinned = Returned pinned"
| "collect_indexes fuel w (idx # rest) pinned =
     (case collectDiscriminatorMappingValues fuel idx w (GetRootNode idx) pinned of
        Returned pinned' \<Rightarrow> collect_indexes fuel w rest pinned'
      | Panicked \<Rightarrow> Panicked
      | OutOfFuel \<Rightarrow> OutOfFuel)"

definition preserveRefs :: "nat \<Rightarrow> rolodex \<Rightarrow> world \<Rightarrow> string set outcome" where
  "preserveRefs fuel r w = collect_indexes fuel w (GetRootIndex r # GetIndexes r) {}"

subsection \<open>Compacting one index\<close>

text \<open>
  \<open>idx.GetLogger().Debug(...)\<close> with no guard: a nil logger is dereferenced, which
  panics.
\<close>

definition logger_Debug :: "SpecIndex \<Rightarrow> string \<Rightarrow> string \<Rightarrow> world \<Rightarrow> exec" where
  "logger_Debug idx msg ref w =
     (case GetLogger idx of
        None \<Rightarrow> Abrupt w
      | Some l \<Rightarrow> Normal (w\<lparr>logs := logs w @ [(l, LevelDebug, msg, ''ref'', ref)]\<rparr>))"

text \<open>The warning of the circular branch, which tests the logger against nil first.\<close>

definition logger_Warn :: "SpecIndex \<Rightarrow> string \<Rightarrow> string \<Rightarrow> world \<Rightarrow> exec" where
  "logger_Warn idx msg ref w =
     (case GetLogger idx of
        None \<Rightarrow> Normal w
      | Some l \<Rightarrow> Normal (w\<lparr>logs := logs w @ [(l, LevelWarn, msg, ''ref'', ref)]\<rparr>))"

text \<open>
  The loop of the root pass that looks for the index owning the reference: the first
  index at the path \<open>refExp[0]\<close> whose \<open>FindComponent\<close> finds the definition replaces the
  mapped reference, as long as that one is there and not circular.
\<close>

fun useCorrectIndex ::
  "SpecIndex list \<Rightarrow> world \<Rightarrow> string \<Rightarrow> Reference \<Rightarrow> Reference option \<Rightarrow> Reference option" where
  "useCorrectIndex [] w refExp0 sequenced mappedReference = mappedReference"
| "useCorrectIndex (i # rest) w refExp0 sequenced mappedReference =
     (if GetSpecAbsolutePath i = refExp0
      then (case mappedReference of
              None \<Rightarrow> useCorrectIndex rest w refExp0 sequenced mappedReference
            | Some m \<Rightarrow>
                if \<not> Circular m
                then (case FindComponent i w (Definition sequenced) of
                        None \<Rightarrow> useCorrectIndex rest w refExp0 sequenced mappedReference
                      | Some mr \<Rightarrow> Some mr)
                else useCorrectIndex rest w refExp0 sequenced mappedReference)
      else useCorrectIndex rest w refExp0 sequenced mappedReference)"

text \<open>The mapped reference the body of the loop works with, after the root pass's lookup.\<close>

definition mappedReference_of ::
  "SpecIndex list \<Rightarrow> SpecIndex \<Rightarrow> bool \<Rightarrow> Reference \<Rightarrow> world \<Rightarrow> Reference option" where
  "mappedReference_of indexes idx root sequenced w =
     (case strings_Split_hashSlash [] (FullDefinition sequenced) of
        [refExp0, refExp1] \<Rightarrow>
          if root
          then useCorrectIndex indexes w refExp0 sequenced
                 (GetMappedReferences idx (FullDefinition sequenced))
          else GetMappedReferences idx (FullDefinition sequenced)
      | _ \<Rightarrow> GetMappedReferences idx (FullDefinition sequenced))"

text \<open>The test that skips a reference of the root document to the root document itself.\<close>

definition localRootReference :: "bool \<Rightarrow> Reference \<Rightarrow> bool" where
  "localRootReference root sequenced =
     (case strings_Split_hashSlash [] (FullDefinition sequenced) of
        [refExp0, refExp1] \<Rightarrow>
          (refExp0 = Index_SpecAbsolutePath sequenced \<or> refExp0 = []) \<and> root
      | _ \<Rightarrow> False)"

text \<open>\<open>sequenced.Node.Content = mappedReference.Node.Content\<close>: the slice is assigned.\<close>

definition assign_Content :: "nat \<Rightarrow> nat \<Rightarrow> world \<Rightarrow> world" where
  "assign_Content site target w =
     w\<lparr>nodes := (nodes w)(site := (nodes w site)\<lparr>Content := Content (nodes w target)\<rparr>)\<rparr>"

text \<open>The body of the loop of \<open>compact\<close>, for one sequenced reference.\<close>

definition compact_reference ::
  "SpecIndex list \<Rightarrow> string set \<Rightarrow> SpecIndex \<Rightarrow> bool \<Rightarrow> Reference \<Rightarrow> world \<Rightarrow> exec" where
  "compact_reference indexes preserve idx root sequenced w =
     (if localRootReference root sequenced
      then logger_Debug idx ''[bundler] skipping local root reference'' (Definition sequenced) w
      else if FullDefinition sequenced \<in> preserve
      then logger_Debug idx
             ''[bundler] skipping union type (oneOf/anyOf) with discriminator mapping''
             (Definition sequenced) w
      else (case mappedReference_of indexes idx root sequenced w of
              None \<Rightarrow> Normal w
            | Some m \<Rightarrow>
                if \<not> Circular m
                then Normal (assign_Content (Node sequenced) (Node m) w)
                else logger_Warn idx ''[bundler] skipping circular reference''
                       (FullDefinition sequenced) w))"

fun compact_references ::
  "SpecIndex list \<Rightarrow> string set \<Rightarrow> SpecIndex \<Rightarrow> bool \<Rightarrow> Reference list \<Rightarrow> world \<Rightarrow> exec" where
  "compact_references indexes preserve idx root [] w = Normal w"
| "compact_references indexes preserve idx root (sequenced # rest) w =
     (case compact_reference indexes preserve idx root sequenced w of
        Normal w' \<Rightarrow> compact_references indexes preserve idx root rest w'
      | Abrupt w' \<Rightarrow> Abrupt w')"

definition compact :: "SpecIndex list \<Rightarrow> string set \<Rightarrow> SpecIndex \<Rightarrow> bool \<Rightarrow> world \<Rightarrow> exec" where
  "compact indexes preserve idx root w =
     compact_references indexes preserve idx root (GetRawReferencesSequenced idx) w"

text \<open>\<open>for _, idx := range indexes { compact(idx, false) }\<close>\<close>

fun compact_indexes :: "SpecIndex list \<Rightarrow> string set \<Rightarrow> SpecIndex list \<Rightarrow> world \<Rightarrow> exec" where
  "compact_indexes indexes preserve [] w = Normal w"
| "compact_indexes indexes preserve (idx # rest) w =
     (case compact indexes preserve idx False w of
        Normal w' \<Rightarrow> compact_indexes indexes preserve rest w'
      | Abrupt w' \<Rightarrow> Abrupt w')"

subsection \<open>The inline bundler and its entry points\<close>

text \<open>
  \<open>bundle\<close>, under the name \<open>bundle_inline\<close>. \<open>model.Render\<close> belongs to a package that is
  not at hand: it is the parameter \<open>render\<close>, which reads the model and the store. The
  function never tests the model or its rolodex against nil: a nil one is dereferenced.
  The result is the outcome and the store as the call left it.
\<close>

definition bundle_inline ::
  "(document \<Rightarrow> world \<Rightarrow> bundled) \<Rightarrow> nat \<Rightarrow> document option \<Rightarrow> world \<Rightarrow> bundled outcome \<times> world" where
  "bundle_inline render fuel model w =
     (case model of
        None \<Rightarrow> (Panicked, w)
      | Some m \<Rightarrow>
          (case Rolodex m of
             None \<Rightarrow> (Panicked, w)
           | Some r \<Rightarrow>
               (case preserveRefs fuel r w of
                  Panicked \<Rightarrow> (Panicked, w)
                | OutOfFuel \<Rightarrow> (OutOfFuel, w)
                | Returned preserve \<Rightarrow>
                    (case compact_indexes (GetIndexes r) preserve (GetIndexes r) w of
                       Abrupt w1 \<Rightarrow> (Panicked, w1)
                     | Normal w1 \<Rightarrow>
                         (case compact (GetIndexes r) preserve (GetRootIndex r) True w1 of
                            Abrupt w2 \<Rightarrow> (Panicked, w2)
                          | Normal w2 \<Rightarrow> (Returned (render m w2), w2))))))"

definition BundleDocument ::
  "(document \<Rightarrow> world \<Rightarrow> bundled) \<Rightarrow> nat \<Rightarrow> document option \<Rightarrow> world \<Rightarrow> bundled outcome \<times> world" where
  "BundleDocument render fuel model w = bundle_inline render fuel model w"

definition BundleBytes ::
  "(string \<Rightarrow> 'cfg \<Rightarrow> 'doc \<times> error option) \<Rightarrow>
   ('doc \<Rightarrow> (document option \<times> error option list) \<times> world) \<Rightarrow>
   (document \<Rightarrow> world \<Rightarrow> bundled) \<Rightarrow> nat \<Rightarrow> string \<Rightarrow> 'cfg \<Rightarrow> bundled outcome" where
  "BundleBytes newDocumentWithConfiguration buildV3Model render fuel bytes configuration =
    (let (doc, err) = newDocumentWithConfiguration bytes configuration
     in if err \<noteq> None then Returned (None, err)
        else
          (let ((v3Doc, errs), w) = buildV3Model doc;
               err = errors_Join errs
           in if v3Doc = None then Returned (None, errors_Join [Some ErrInvalidModel, err])
              else
                (case fst (bundle_inline render fuel v3Doc w) of
                   Returned (bundledBytes, e) \<Rightarrow> Returned (bundledBytes, errors_Join [err, e])
                 | Panicked \<Rightarrow> Panicked
                 | OutOfFuel \<Rightarrow> OutOfFuel)))"

text \<open>The store after the two passes of compaction, whether they ended or panicked.\<close>

definition compacted :: "rolodex \<Rightarrow> string set \<Rightarrow> world \<Rightarrow> world" where
  "compacted r preserve w =
     (case compact_indexes (GetIndexes r) preserve (GetIndexes r) w of
        Abrupt w1 \<Rightarrow> w1
      | Normal w1 \<Rightarrow> world_of (compact (GetIndexes r) preserve (GetRootIndex r) True w1))"

section \<open>Example documents\<close>

definition scalar :: "string \<Rightarrow> yaml_Node" where
  "scalar v = \<lparr>Kind = ScalarNode, Value = v, Content = \<lparr>sl_array = 0, sl_off = 0, sl_len = 0\<rparr>\<rparr>"

definition branch :: "yaml_Kind \<Rightarrow> nat \<Rightarrow> nat \<Rightarrow> yaml_Node" where
  "branch k a n = \<lparr>Kind = k, Value = [], Content = \<lparr>sl_array = a, sl_off = 0, sl_len = n\<rparr>\<rparr>"

definition store :: "yaml_Node list \<Rightarrow> nat list list \<Rightarrow> world" where
  "store ns as =
     \<lparr>nodes = (\<lambda>n. if n < length ns then ns ! n else branch ZeroKind 0 0),
      arrays = (\<lambda>a. if a < length as then as ! a else []),
      logs = []\<rparr>"

definition reference :: "string \<Rightarrow> string \<Rightarrow> nat \<Rightarrow> string \<Rightarrow> bool \<Rightarrow> Reference" where
  "reference full def n path circ =
     \<lparr>FullDefinition = full, Definition = def, Node = n, Index_SpecAbsolutePath = path,
      Circular = circ\<rparr>"

text \<open>
  A root document \<open>/root.yaml\<close> and an external one, \<open>/ext.yaml\<close>:
  \<^verbatim>\<open>
  tree: {$ref: 'ext.yaml#/Tree'}        Tree: {items: {$ref: '#/Tree'}}
  self: {$ref: '#/self'}
  name: {$ref: '#/tree'}
  \<close>
  Nodes 0 to 8 and 16 to 19 are the root document's, nodes 9 to 15 the external one's. The
  reference of \<open>self\<close> to itself and the reference of \<open>Tree\<close> to itself are circular.
\<close>

definition tree_world :: world where
  "tree_world = store
     [branch MappingNode 1 6, scalar ''tree'', branch MappingNode 2 2, scalar ''self'',
      branch MappingNode 3 2, scalar ''$ref'', scalar ''ext.yaml#/Tree'', scalar ''$ref'',
      scalar ''#/self'',
      branch MappingNode 4 2, scalar ''Tree'', branch MappingNode 5 2, scalar ''items'',
      branch MappingNode 6 2, scalar ''$ref'', scalar ''#/Tree'',
      scalar ''name'', branch MappingNode 7 2, scalar ''$ref'', scalar ''#/tree'']
     [[], [1, 2, 3, 4, 16, 17], [5, 6], [7, 8], [10, 11], [12, 13], [14, 15], [18, 19]]"

definition tree_site :: Reference where
  "tree_site = reference ''/ext.yaml#/Tree'' ''#/Tree'' 2 ''/root.yaml'' False"

definition self_site :: Reference where
  "self_site = reference ''/root.yaml#/self'' ''#/self'' 4 ''/root.yaml'' False"

definition name_site :: Reference where
  "name_site = reference ''/root.yaml#/tree'' ''#/tree'' 17 ''/root.yaml'' False"

definition items_site :: Reference where
  "items_site = reference ''/ext.yaml#/Tree'' ''#/Tree'' 13 ''/ext.yaml'' False"

definition tree_ext :: SpecIndex where
  "tree_ext =
     \<lparr>GetSpecAbsolutePath = ''/ext.yaml'', GetRootNode = 9,
      GetMappedReferences = [''/ext.yaml#/Tree'' \<mapsto>
         reference ''/ext.yaml#/Tree'' ''#/Tree'' 11 ''/ext.yaml'' True],
      GetRawReferencesSequenced = [items_site],
      GetLogger = Some 0,
      FindComponent = (\<lambda>w. [''#/Tree'' \<mapsto>
         reference ''/ext.yaml#/Tree'' ''#/Tree'' 11 ''/ext.yaml'' False]),
      SearchIndexForReference = Map.empty\<rparr>"

definition tree_root :: SpecIndex where
  "tree_root =
     \<lparr>GetSpecAbsolutePath = ''/root.yaml'', GetRootNode = 0,
      GetMappedReferences = [''/ext.yaml#/Tree'' \<mapsto>
         reference ''/ext.yaml#/Tree'' ''#/Tree'' 11 ''/ext.yaml'' False,
         ''/root.yaml#/self'' \<mapsto>
         reference ''/root.yaml#/self'' ''#/self'' 4 ''/root.yaml'' True,
         ''/root.yaml#/tree'' \<mapsto>
         reference ''/root.yaml#/tree'' ''#/tree'' 2 ''/root.yaml'' False],
      GetRawReferencesSequenced = [tree_site, self_site, name_site],
      GetLogger = Some 0,
      FindComponent = (\<lambda>w. Map.empty),
      SearchIndexForReference = Map.empty\<rparr>"

definition tree_rolodex :: rolodex where
  "tree_rolodex = \<lparr>GetRootIndex = tree_root, GetIndexes = [tree_ext]\<rparr>"

definition tree_model :: document where
  "tree_model = \<lparr>Rolodex = Some tree_rolodex\<rparr>"

text \<open>A renderer for the examples: the scalars below a node, in document order.\<close>

fun scalars :: "nat \<Rightarrow> world \<Rightarrow> nat \<Rightarrow> string list" where
  "scalars 0 w n = []"
| "scalars (Suc d) w n =
     (if Kind (nodes w n) = ScalarNode then [Value (nodes w n)]
      else concat (map (scalars d w) (children w n)))"

definition render_scalars :: "document \<Rightarrow> world \<Rightarrow> bundled" where
  "render_scalars m w =
     (case Rolodex m of
        None \<Rightarrow> (None, Some (ErrorString ''no rolodex''))
      | Some r \<Rightarrow> (Some (concat (scalars 8 w (GetRootNode (GetRootIndex r)))), None))"

text \<open>A stand-in for the composition that follows the guards: it renders the document.\<close>

definition compose_rendering ::
  "BundleCompositionConfig \<Rightarrow> document \<Rightarrow> rolodex \<Rightarrow> world \<Rightarrow> bundled \<times> world" where
  "compose_rendering cfg m r w = (render_scalars m w, w)"

text \<open>
  Stand-ins for the document constructor and the model builder: empty bytes do not parse,
  the bytes \<open>swagger\<close> give no model, the bytes \<open>broken\<close> give the model of the example
  with one build error, any other bytes give it with none.
\<close>

definition parse_bytes :: "string \<Rightarrow> unit \<Rightarrow> string \<times> error option" where
  "parse_bytes bytes configuration =
     (bytes, if bytes = [] then Some (ErrorString ''there is nothing in the spec'') else None)"

definition build_model :: "string \<Rightarrow> (document option \<times> error option list) \<times> world" where
  "build_model doc =
     (if doc = ''swagger'' then ((None, [Some (ErrorString ''not a version 3 document'')]), tree_world)
      else if doc = ''broken''
      then ((Some tree_model, [Some (ErrorString ''component does not exist'')]), tree_world)
      else ((Some tree_model, []), tree_world))"

text \<open>Stand-ins for the schema builder: a schema is a string, building fails on no node.\<close>

definition string_builder :: "(string, unit) schema_builder" where
  "string_builder =
     \<lparr>zero_Schema = [],
      low_BuildModel = (\<lambda>n s. (''schema'', None)),
      schema_Build = (\<lambda>s n i. (s, if n = None then Some (ErrorString ''no node'') else None))\<rparr>"

definition empty_schemas :: "string schema_store" where
  "empty_schemas = \<lparr>schemas = Map.empty, next_schema = 0\<rparr>"

text \<open>
  A root document \<open>/root.yaml\<close> with a discriminated union, and the external document
  \<open>/pets.yaml\<close> of its variants:
  \<^verbatim>\<open>
  oneOf: [{$ref: 'pets.yaml#/Cat'}]          Cat: {type: object}
  discriminator:                            Dog: {type: object}
    mapping: {dog: 'pets.yaml#/Dog'}
  \<close>
  Nodes 0 to 11 are the root document's, nodes 12 to 20 the external one's.
\<close>

definition pets_world :: world where
  "pets_world = store
     [branch MappingNode 1 4, scalar ''oneOf'', branch SequenceNode 2 1, scalar ''discriminator'',
      branch MappingNode 3 2, branch MappingNode 4 2, scalar ''$ref'', scalar ''pets.yaml#/Cat'',
      scalar ''mapping'', branch MappingNode 5 2, scalar ''dog'', scalar ''pets.yaml#/Dog'',
      branch MappingNode 6 4, scalar ''Cat'', branch MappingNode 7 2, scalar ''Dog'',
      branch MappingNode 8 2, scalar ''type'', scalar ''object'', scalar ''type'',
      scalar ''object'']
     [[], [1, 2, 3, 4], [5], [8, 9], [6, 7], [10, 11], [13, 14, 15, 16], [17, 18], [19, 20]]"

definition cat_site :: Reference where
  "cat_site = reference ''/pets.yaml#/Cat'' ''#/Cat'' 5 ''/root.yaml'' False"

definition pets_search :: "string \<Rightarrow> (Reference \<times> string) option" where
  "pets_search =
     [''pets.yaml#/Cat'' \<mapsto> (reference ''/pets.yaml#/Cat'' ''#/Cat'' 14 ''/pets.yaml'' False,
                             ''/pets.yaml''),
      ''pets.yaml#/Dog'' \<mapsto> (reference ''/pets.yaml#/Dog'' ''#/Dog'' 16 ''/pets.yaml'' False,
                             ''/pets.yaml'')]"

definition pets_ext :: SpecIndex where
  "pets_ext =
     \<lparr>GetSpecAbsolutePath = ''/pets.yaml'', GetRootNode = 12,
      GetMappedReferences = Map.empty,
      GetRawReferencesSequenced = [],
      GetLogger = Some 0,
      FindComponent = (\<lambda>w. [''#/Cat'' \<mapsto>
         reference ''/pets.yaml#/Cat'' ''#/Cat'' 14 ''/pets.yaml'' False]),
      SearchIndexForReference = Map.empty\<rparr>"

definition pets_root :: SpecIndex where
  "pets_root =
     \<lparr>GetSpecAbsolutePath = ''/root.yaml'', GetRootNode = 0,
      GetMappedReferences = [''/pets.yaml#/Cat'' \<mapsto>
         reference ''/pets.yaml#/Cat'' ''#/Cat'' 14 ''/pets.yaml'' False],
      GetRawReferencesSequenced = [cat_site],
      GetLogger = Some 0,
      FindComponent = (\<lambda>w. Map.empty),
      SearchIndexForReference = pets_search\<rparr>"

definition pets_rolodex :: rolodex where
  "pets_rolodex = \<lparr>GetRootIndex = pets_root, GetIndexes = [pets_ext]\<rparr>"

definition pets_model :: document where
  "pets_model = \<lparr>Rolodex = Some pets_rolodex\<rparr>"

text \<open>
  The same union with a discriminator that has a property name and no mapping:
  \<^verbatim>\<open>
  oneOf: [{$ref: 'pets.yaml#/Cat'}]
  discriminator: {propertyName: kind}
  \<close>
\<close>

definition union_world :: world where
  "union_world = store
     [branch MappingNode 1 4, scalar ''oneOf'', branch SequenceNode 2 1, scalar ''discriminator'',
      branch MappingNode 3 2, branch MappingNode 4 2, scalar ''$ref'', scalar ''pets.yaml#/Cat'',
      scalar ''propertyName'', scalar ''kind'']
     [[], [1, 2, 3, 4], [5], [8, 9], [6, 7]]"

section \<open>Documents the walk ends on\<close>

text \<open>
  The walk panics on a mapping node with an odd number of children and does not end on a
  cycle of nodes. \<open>tree_ok d w n\<close> says that what the walk visits from \<open>n\<close> is a tree of
  depth at most \<open>d\<close> whose mapping nodes are made of key/value pairs, and that the
  \<open>mapping\<close> of a discriminator is made of pairs too.
\<close>

fun keyed :: "(nat \<Rightarrow> nat \<Rightarrow> bool) \<Rightarrow> nat list \<Rightarrow> bool" where
  "keyed Q [] = True"
| "keyed Q [k] = False"
| "keyed Q (k # v # rest) = (Q k v \<and> keyed Q rest)"

definition discriminator_ok :: "world \<Rightarrow> nat \<Rightarrow> bool" where
  "discriminator_ok w d =
     (Kind (nodes w d) = MappingNode \<longrightarrow>
        keyed (\<lambda>k v. Value (nodes w k) = ''mapping'' \<longrightarrow> even (length (children w v)))
          (children w d))"

fun tree_ok :: "nat \<Rightarrow> world \<Rightarrow> nat \<Rightarrow> bool" where
  "tree_ok 0 w n = False"
| "tree_ok (Suc d) w n =
     (case Kind (nodes w (unwrap_document w n)) of
        SequenceNode \<Rightarrow> list_all (tree_ok d w) (children w (unwrap_document w n))
      | MappingNode \<Rightarrow>
          keyed (\<lambda>k v. tree_ok d w v
                       \<and> (Value (nodes w k) = ''discriminator'' \<longrightarrow> discriminator_ok w v))
            (children w (unwrap_document w n))
      | _ \<Rightarrow> True)"

text \<open>
  The document of the first scenario of the specification, with no reference at all:
  \<^verbatim>\<open>
  openapi: 3.1.0
  info: {title: T}
  \<close>
\<close>

definition plain_world :: world where
  "plain_world = store
     [branch DocumentNode 1 1, branch MappingNode 2 4, scalar ''openapi'', scalar ''3.1.0'',
      scalar ''info'', branch MappingNode 3 2, scalar ''title'', scalar ''T'']
     [[], [1], [2, 3, 4, 5], [6, 7]]"

definition plain_root :: SpecIndex where
  "plain_root =
     \<lparr>GetSpecAbsolutePath = ''/root.yaml'', GetRootNode = 0,
      GetMappedReferences = Map.empty,
      GetRawReferencesSequenced = [],
      GetLogger = None,
      FindComponent = (\<lambda>w. Map.empty),
      SearchIndexForReference = Map.empty\<rparr>"

definition plain_model :: document where
  "plain_model = \<lparr>Rolodex = Some \<lparr>GetRootIndex = plain_root, GetIndexes = []\<rparr>\<rparr>"

text \<open>
  A document with no reference either, whose discriminator has a sequence where its
  mapping should be:
  \<^verbatim>\<open>
  openapi: 3.1.0
  discriminator:
    mapping: [oops]
  \<close>
\<close>

definition odd_world :: world where
  "odd_world = store
     [branch DocumentNode 1 1, branch MappingNode 2 4, scalar ''openapi'', scalar ''3.1.0'',
      scalar ''discriminator'', branch MappingNode 3 2, scalar ''mapping'',
      branch SequenceNode 4 1, scalar ''oops'']
     [[], [1], [2, 3, 4, 5], [6, 7], [8]]"

definition odd_root :: SpecIndex where
  "odd_root =
     \<lparr>GetSpecAbsolutePath = ''/root.yaml'', GetRootNode = 0,
      GetMappedReferences = Map.empty,
      GetRawReferencesSequenced = [],
      GetLogger = Some 0,
      FindComponent = (\<lambda>w. Map.empty),
      SearchIndexForReference = Map.empty\<rparr>"

definition odd_model :: document where
  "odd_model = \<lparr>Rolodex = Some \<lparr>GetRootIndex = odd_root, GetIndexes = []\<rparr>\<rparr>"

text \<open>What the loop over a mapping node's pairs knows of its three keys, in the proofs.\<close>

definition locals_ok :: "nat \<Rightarrow> world \<Rightarrow> union_locals \<Rightarrow> bool" where
  "locals_ok d w l =
     (case l of (discriminator, oneOf, anyOf) \<Rightarrow>
        (\<forall>x. discriminator = Some x \<longrightarrow> discriminator_ok w x)
        \<and> (\<forall>x. oneOf = Some x \<longrightarrow> tree_ok d w x)
        \<and> (\<forall>x. anyOf = Some x \<longrightarrow> tree_ok d w x))"

section \<open>The preserve set, as the specification words it\<close>

text \<open>
  The key/value pairs of a mapping node's content, the value of the last key of a given
  name, and the sets the specification speaks of: the absolute definitions the index
  finds for one reference string, for the targets named in a discriminator's mapping, and
  for the \<open>$ref\<close> of the items of a \<open>oneOf\<close> or \<open>anyOf\<close> sequence.
\<close>

fun pairs :: "'a list \<Rightarrow> ('a \<times> 'a) list" where
  "pairs (k # v # rest) = (k, v) # pairs rest"
| "pairs _ = []"

fun last_value :: "world \<Rightarrow> string \<Rightarrow> nat list \<Rightarrow> nat option" where
  "last_value w key (k # v # rest) =
     (case last_value w key rest of
        Some x \<Rightarrow> Some x
      | None \<Rightarrow> if Value (nodes w k) = key then Some v else None)"
| "last_value w key _ = None"

definition found :: "SpecIndex \<Rightarrow> string \<Rightarrow> string set" where
  "found idx refValue =
     (case SearchIndexForReference idx refValue of
        None \<Rightarrow> {}
      | Some (ref, refIdxPath) \<Rightarrow> {refIdxPath @ Definition ref})"

definition mapping_targets :: "SpecIndex \<Rightarrow> world \<Rightarrow> nat \<Rightarrow> string set" where
  "mapping_targets idx w d =
     (if Kind (nodes w d) = MappingNode
      then (\<Union>(k, v) \<in> set (pairs (children w d)).
              if Value (nodes w k) = ''mapping''
              then (\<Union>(k', v') \<in> set (pairs (children w v)). found idx (Value (nodes w v')))
              else {})
      else {})"

definition union_ref_targets :: "SpecIndex \<Rightarrow> world \<Rightarrow> nat option \<Rightarrow> string set" where
  "union_ref_targets idx w seq =
     (case seq of
        None \<Rightarrow> {}
      | Some s \<Rightarrow>
          if Kind (nodes w s) = SequenceNode
          then (\<Union>item \<in> set (children w s).
                  if Kind (nodes w item) = MappingNode
                  then (\<Union>(k, v) \<in> set (pairs (children w item)).
                          if Value (nodes w k) = ''$ref'' \<and> Kind (nodes w v) = ScalarNode
                          then found idx (Value (nodes w v)) else {})
                  else {})
          else {})"

text \<open>A local of the loop after more pairs: the later value when there is one.\<close>

definition pick :: "nat option \<Rightarrow> nat option \<Rightarrow> nat option" where
  "pick new old = (case new of None \<Rightarrow> old | Some x \<Rightarrow> Some x)"

section \<open>Composed bundling: the guards\<close>

lemma strings_Contains_char: "strings_Contains s [c] = (c \<in> set s)"
  by (induction s) auto

lemma compose_rejects:
  assumes "CHR ''#'' \<in> set (Delimiter c) \<or> CHR ''/'' \<in> set (Delimiter c)
           \<or> CHR '' '' \<in> set (Delimiter c)"
  shows "\<exists>e. compose ci model (Some c) w = ((None, Some e), Some c, w)"
proof -
  from assms have ne: "Delimiter c \<noteq> []" by auto
  show ?thesis using assms ne
    by (auto simp: compose_def Let_def strings_Contains_char)
qed

text \<open>
  C5, as the code has it. A composition configuration whose delimiter contains \<open>#\<close>, \<open>/\<close>
  or a space makes \<open>compose\<close>, \<open>BundleDocumentComposed\<close> and \<open>BundleBytesComposed\<close> return an
  error and no bytes, with the store untouched. When the configuration is absent or its
  delimiter is empty, the delimiter in effect is \<open>__\<close> and, for a model with a rolodex, the
  composition runs with it. The guard tests the space character only, not every
  whitespace character: a delimiter that is not empty and holds none of the three
  characters is taken as it is.
\<close>

theorem compose_delimiter_check:
  fixes c :: BundleCompositionConfig
  assumes bad: "CHR ''#'' \<in> set (Delimiter c) \<or> CHR ''/'' \<in> set (Delimiter c)
                \<or> CHR '' '' \<in> set (Delimiter c)"
      and dflt: "cfg = None \<or> cfg = Some \<lparr>Delimiter = []\<rparr>"
      and m: "Rolodex m = Some r"
      and good: "Delimiter g \<noteq> []" "CHR ''#'' \<notin> set (Delimiter g)"
                "CHR ''/'' \<notin> set (Delimiter g)" "CHR '' '' \<notin> set (Delimiter g)"
  shows "(\<exists>e. compose ci model (Some c) w = ((None, Some e), Some c, w))
       \<and> (\<exists>e. BundleDocumentComposed ci model (Some c) w = ((None, Some e), Some c, w))
       \<and> (\<exists>e. BundleBytesComposed nd bv ci bytes conf (Some c) = ((None, Some e), Some c))
       \<and> compose ci (Some m) cfg w =
           (case ci \<lparr>Delimiter = ''__''\<rparr> m r w of
              (res, w') \<Rightarrow> (res, map_option (\<lambda>c0. \<lparr>Delimiter = ''__''\<rparr>) cfg, w'))
       \<and> compose ci (Some m) (Some g) w =
           (case ci g m r w of (res, w') \<Rightarrow> (res, Some g, w'))"
proof -
  have A: "\<exists>e. compose ci model (Some c) w = ((None, Some e), Some c, w)" for model w
    using compose_rejects[OF bad] by blast
  have B: "\<exists>e. BundleBytesComposed nd bv ci bytes conf (Some c) = ((None, Some e), Some c)"
  proof (cases "nd bytes conf")
    case (Pair doc err)
    show ?thesis
    proof (cases err)
      case (Some e)
      with Pair show ?thesis by (simp add: BundleBytesComposed_def)
    next
      case None
      obtain v3 errs w0 where bv: "bv doc = ((v3, errs), w0)" by (metis prod.exhaust)
      show ?thesis
      proof (cases "v3 = None \<or> length errs > 0")
        case True
        with Pair None bv show ?thesis
          by (simp add: BundleBytesComposed_def errors_Join_def)
      next
        case False
        from A[of v3 w0] obtain e where "compose ci v3 (Some c) w0 = ((None, Some e), Some c, w0)"
          by blast
        with False Pair None bv show ?thesis
          by (simp add: BundleBytesComposed_def errors_Join_def)
      qed
    qed
  qed
  have C: "compose ci (Some m) cfg w =
           (case ci \<lparr>Delimiter = ''__''\<rparr> m r w of
              (res, w') \<Rightarrow> (res, map_option (\<lambda>c0. \<lparr>Delimiter = ''__''\<rparr>) cfg, w'))"
    using dflt m by (auto simp: compose_def Let_def split: prod.splits)
  have D: "compose ci (Some m) (Some g) w =
           (case ci g m r w of (res, w') \<Rightarrow> (res, Some g, w'))"
    using good m by (auto simp: compose_def Let_def strings_Contains_char split: prod.splits)
  show ?thesis using A B C D by (simp add: BundleDocumentComposed_def)
qed

theorem compose_delimiter_check_witness:
  "CHR ''/'' \<in> set (Delimiter \<lparr>Delimiter = ''a/b''\<rparr>)
   \<and> Rolodex tree_model = Some tree_rolodex
   \<and> compose compose_rendering (Some tree_model) (Some \<lparr>Delimiter = ''a/b''\<rparr>) tree_world =
       ((None, Some (ErrorString ''composition delimiter cannot contain '#' or '/' characters'')),
        Some \<lparr>Delimiter = ''a/b''\<rparr>, tree_world)
   \<and> fst (BundleBytesComposed parse_bytes build_model compose_rendering ''openapi'' ()
            (Some \<lparr>Delimiter = ''a/b''\<rparr>)) =
       (None, Some (JoinError
          [ErrorString ''composition delimiter cannot contain '#' or '/' characters'']))
   \<and> compose compose_rendering (Some tree_model) (Some \<lparr>Delimiter = []\<rparr>) tree_world =
       (render_scalars tree_model tree_world, Some \<lparr>Delimiter = ''__''\<rparr>, tree_world)
   \<and> compose compose_rendering (Some tree_model) (Some \<lparr>Delimiter = ''-''\<rparr>) tree_world =
       (render_scalars tree_model tree_world, Some \<lparr>Delimiter = ''-''\<rparr>, tree_world)"
proof -
  have bad: "CHR ''#'' \<in> set (Delimiter \<lparr>Delimiter = ''a/b''\<rparr>)
      \<or> CHR ''/'' \<in> set (Delimiter \<lparr>Delimiter = ''a/b''\<rparr>)
      \<or> CHR '' '' \<in> set (Delimiter \<lparr>Delimiter = ''a/b''\<rparr>)" by simp
  have dflt: "Some \<lparr>Delimiter = []\<rparr> = None \<or> Some \<lparr>Delimiter = []\<rparr> = Some \<lparr>Delimiter = []\<rparr>"
    by simp
  have m: "Rolodex tree_model = Some tree_rolodex" by (simp add: tree_model_def)
  have good: "Delimiter \<lparr>Delimiter = ''-''\<rparr> \<noteq> []"
    "CHR ''#'' \<notin> set (Delimiter \<lparr>Delimiter = ''-''\<rparr>)"
    "CHR ''/'' \<notin> set (Delimiter \<lparr>Delimiter = ''-''\<rparr>)"
    "CHR '' '' \<notin> set (Delimiter \<lparr>Delimiter = ''-''\<rparr>)" by simp_all
  note t = compose_delimiter_check[where ci = compose_rendering and model = "Some tree_model"
      and w = tree_world and nd = parse_bytes and bv = build_model and bytes = "''openapi''"
      and conf = "()"]
  from t[OF bad dflt m good]
  show ?thesis using m
    by (auto simp: compose_def BundleBytesComposed_def parse_bytes_def build_model_def
                 errors_Join_def compose_rendering_def Let_def)
qed

text \<open>
  C5, as it is stated, fails on a tab: a delimiter made of one tab, a whitespace character,
  passes both guards, and the composition runs and returns bytes and no error.
\<close>

theorem compose_accepts_tab:
  "compose compose_rendering (Some tree_model) (Some \<lparr>Delimiter = [CHR 0x09]\<rparr>) tree_world =
     ((Some ''tree$refext.yaml#/Treeself$ref#/selfname$ref#/tree'', None),
      Some \<lparr>Delimiter = [CHR 0x09]\<rparr>, tree_world)"
  by (simp add: compose_def compose_rendering_def render_scalars_def tree_model_def
        tree_rolodex_def tree_root_def tree_world_def store_def scalar_def branch_def
        children_def elems_def eval_nat_numeral)

text \<open>
  C10. When the model is nil or its rolodex is nil, \<open>compose\<close> (and so
  \<open>BundleDocumentComposed\<close>) returns nil bytes and an error, whatever the configuration:
  no pointer is dereferenced, the store is the one it was given, and the result does not
  depend on the composition and rendering that would follow, which do not run. The one
  assignment made before the test is the default written into an empty delimiter of the
  caller's configuration.
\<close>

theorem compose_nil_model:
  assumes "model = None \<or> (\<exists>m. model = Some m \<and> Rolodex m = None)"
  shows "\<exists>e cfg'. compose ci model cfg w = ((None, Some e), cfg', w)
           \<and> BundleDocumentComposed ci model cfg w = ((None, Some e), cfg', w)
           \<and> compose ci' model cfg w = ((None, Some e), cfg', w)
           \<and> (cfg' = cfg \<or> cfg = Some \<lparr>Delimiter = []\<rparr> \<and> cfg' = Some \<lparr>Delimiter = ''__''\<rparr>)"
  using assms
  by (cases cfg) (auto simp: compose_def BundleDocumentComposed_def Let_def)

theorem compose_nil_model_witness:
  "Rolodex \<lparr>Rolodex = None\<rparr> = None
   \<and> compose compose_rendering (Some \<lparr>Rolodex = None\<rparr>) (Some \<lparr>Delimiter = ''-''\<rparr>) tree_world =
       ((None, Some (ErrorString ''model or rolodex is nil'')), Some \<lparr>Delimiter = ''-''\<rparr>, tree_world)
   \<and> BundleDocumentComposed compose_rendering None None tree_world =
       ((None, Some (ErrorString ''model or rolodex is nil'')), None, tree_world)"
proof -
  have h1: "Some \<lparr>Rolodex = None\<rparr> = None
            \<or> (\<exists>m. Some \<lparr>Rolodex = None\<rparr> = Some m \<and> Rolodex m = None)" by simp
  have h2: "(None :: document option) = None \<or> (\<exists>m. None = Some m \<and> Rolodex m = None)" by simp
  from compose_nil_model[OF h1, of compose_rendering "Some \<lparr>Delimiter = ''-''\<rparr>" tree_world]
       compose_nil_model[OF h2, of compose_rendering None tree_world]
  show ?thesis
    by (auto simp: compose_def BundleDocumentComposed_def Let_def)
qed

text \<open>
  C6, as the code has it. When the bytes do not make a document, \<open>BundleBytesComposed\<close>
  returns nil bytes and the constructor's error as it is, not joined with the invalid
  model error. When a document is made, it returns nil bytes and the invalid model error
  joined with the build errors exactly when the model is nil or the build reported at
  least one error, and \<open>compose\<close> does not run; with a model and no build error the
  result is that of \<open>compose\<close>.
\<close>

theorem BundleBytesComposed_outcomes:
  assumes parse: "nd bytes1 conf = (doc1, Some e1)"
      and built: "nd bytes2 conf = (doc2, None)" "bv doc2 = ((v3, errs), w2)"
                 "v3 = None \<or> length errs > 0"
      and clean: "nd bytes3 conf = (doc3, None)" "bv doc3 = ((Some m, []), w3)"
  shows "BundleBytesComposed nd bv ci bytes1 conf cc = ((None, Some e1), cc)
       \<and> (\<exists>e. BundleBytesComposed nd bv ci bytes2 conf cc = ((None, Some e), cc)
              \<and> errors_Is e ErrInvalidModel)
       \<and> BundleBytesComposed nd bv ci bytes2 conf cc =
           ((None, errors_Join [Some ErrInvalidModel, errors_Join errs]), cc)
       \<and> BundleBytesComposed nd bv ci' bytes2 conf cc = BundleBytesComposed nd bv ci bytes2 conf cc
       \<and> BundleBytesComposed nd bv ci bytes3 conf cc =
           (case compose ci (Some m) cc w3 of
              ((bundledBytes, e), cc', w') \<Rightarrow> ((bundledBytes, errors_Join [None, e]), cc'))"
  using assms
  by (auto simp: BundleBytesComposed_def errors_Join_def split: prod.splits)

theorem BundleBytesComposed_outcomes_witness:
  "parse_bytes [] () = ([], Some (ErrorString ''there is nothing in the spec''))
   \<and> parse_bytes ''swagger'' () = (''swagger'', None)
   \<and> build_model ''swagger'' =
       ((None, [Some (ErrorString ''not a version 3 document'')]), tree_world)
   \<and> parse_bytes ''openapi'' () = (''openapi'', None)
   \<and> build_model ''openapi'' = ((Some tree_model, []), tree_world)
   \<and> BundleBytesComposed parse_bytes build_model compose_rendering [] () None =
       ((None, Some (ErrorString ''there is nothing in the spec'')), None)
   \<and> BundleBytesComposed parse_bytes build_model compose_rendering ''swagger'' () None =
       ((None, Some (JoinError [ErrInvalidModel,
                       JoinError [ErrorString ''not a version 3 document'']])), None)
   \<and> BundleBytesComposed parse_bytes build_model compose_rendering ''openapi'' () None =
       (render_scalars tree_model tree_world, None)"
proof -
  have h1: "parse_bytes [] () = ([], Some (ErrorString ''there is nothing in the spec''))"
    by (simp add: parse_bytes_def)
  have h2: "parse_bytes ''swagger'' () = (''swagger'', None)" by (simp add: parse_bytes_def)
  have h3: "build_model ''swagger'' =
       ((None, [Some (ErrorString ''not a version 3 document'')]), tree_world)"
    by (simp add: build_model_def)
  have h4: "(None :: document option) = None
            \<or> length [Some (ErrorString ''not a version 3 document'')] > 0" by simp
  have h5: "parse_bytes ''openapi'' () = (''openapi'', None)" by (simp add: parse_bytes_def)
  have h6: "build_model ''openapi'' = ((Some tree_model, []), tree_world)"
    by (simp add: build_model_def)
  have r: "render_scalars tree_model tree_world = (Some (concat (scalars 8 tree_world 0)), None)"
    by (simp add: render_scalars_def tree_model_def tree_rolodex_def tree_root_def)
  note t = BundleBytesComposed_outcomes[where nd = parse_bytes and bv = build_model
      and ci = compose_rendering and ci' = compose_rendering and cc = None]
  have ev: "BundleBytesComposed parse_bytes build_model compose_rendering [] () None =
       ((None, Some (ErrorString ''there is nothing in the spec'')), None)
   \<and> BundleBytesComposed parse_bytes build_model compose_rendering ''swagger'' () None =
       ((None, Some (JoinError [ErrInvalidModel,
                       JoinError [ErrorString ''not a version 3 document'']])), None)
   \<and> BundleBytesComposed parse_bytes build_model compose_rendering ''openapi'' () None =
       (render_scalars tree_model tree_world, None)"
    using r
    by (simp add: BundleBytesComposed_def parse_bytes_def build_model_def compose_def
          compose_rendering_def errors_Join_def tree_model_def Let_def)
  from t[OF h1 h2 h3 h4 h5 h6] ev h1 h2 h3 h5 h6
  show ?thesis by blast
qed

text \<open>
  C6, as it is stated, fails in both directions. Bytes that cannot be parsed give the
  parser's own error, which is not the invalid model error; and a model that was built,
  with one build error beside it, gives the invalid model error and no bytes, where
  \<open>BundleBytes\<close> would go on and bundle it.
\<close>

theorem BundleBytesComposed_not_exactly_invalid_model:
  "BundleBytesComposed parse_bytes build_model compose_rendering [] () None =
     ((None, Some (ErrorString ''there is nothing in the spec'')), None)
   \<and> \<not> errors_Is (ErrorString ''there is nothing in the spec'') ErrInvalidModel
   \<and> fst (fst (build_model ''broken'')) = Some tree_model
   \<and> BundleBytesComposed parse_bytes build_model compose_rendering ''broken'' () None =
       ((None, Some (JoinError [ErrInvalidModel,
                       JoinError [ErrorString ''component does not exist'']])), None)"
  by (simp add: BundleBytesComposed_def parse_bytes_def build_model_def errors_Join_def)

section \<open>The schema proxy: laziness and memoisation\<close>

text \<open>
  C8. Setting the proxy up renders nothing. Once a call of \<open>Schema\<close> has returned a
  schema, every later call returns that same schema, whatever the builder would do and
  without touching the proxy or allocating: the proxy it leaves is a fixed point. When the
  build fails, \<open>Schema\<close> returns nil, nothing is memoised, and \<open>GetBuildError\<close> returns
  the build's error; \<open>GetBuildError\<close> returns nil on a proxy on which \<open>Schema\<close> has not
  run, and after a build with no error. The build that can fail is the schema's own
  \<open>Build\<close>: what \<open>low.BuildModel\<close> returns is dropped by the code.
\<close>

theorem Schema_memoized:
  assumes first: "Schema b sp h = (Some s, sp', h')"
      and fails: "rendered spf = None"
                 "snd (schema_Build bf (fst (low_BuildModel bf (vn spf) (zero_Schema bf)))
                        (vn spf) (sp_idx spf)) = Some e"
      and clean: "rendered spc = None" "buildError spc = None"
                 "snd (schema_Build bc (fst (low_BuildModel bc (vn spc) (zero_Schema bc)))
                        (vn spc) (sp_idx spc)) = None"
  shows "Schema b' sp' h'' = (Some s, sp', h'')
       \<and> (\<exists>spf' hf'. Schema bf spf hf = (None, spf', hf') \<and> GetBuildError spf' = Some e
              \<and> rendered spf' = None)
       \<and> rendered (fst (Build zero_SchemaProxy root i)) = None
       \<and> GetBuildError (fst (Build zero_SchemaProxy root i)) = None
       \<and> GetBuildError (fst (snd (Schema bc spc hc))) = None"
  using assms
  by (auto simp: Schema_def GetBuildError_def Build_def zero_SchemaProxy_def Let_def
           split: option.splits prod.splits)

theorem Schema_memoized_witness:
  "Schema string_builder (fst (Build zero_SchemaProxy (Some 11) None)) empty_schemas =
     (Some 0, zero_SchemaProxy\<lparr>vn := Some 11, rendered := Some 0\<rparr>,
      \<lparr>schemas = [0 \<mapsto> ''schema''], next_schema = 1\<rparr>)
   \<and> Schema string_builder (zero_SchemaProxy\<lparr>vn := Some 11, rendered := Some 0\<rparr>)
       \<lparr>schemas = [0 \<mapsto> ''schema''], next_schema = 1\<rparr> =
     (Some 0, zero_SchemaProxy\<lparr>vn := Some 11, rendered := Some 0\<rparr>,
      \<lparr>schemas = [0 \<mapsto> ''schema''], next_schema = 1\<rparr>)
   \<and> fst (Schema string_builder zero_SchemaProxy empty_schemas) = None
   \<and> GetBuildError (fst (snd (Schema string_builder zero_SchemaProxy empty_schemas))) =
       Some (ErrorString ''no node'')"
proof -
  let ?sp = "fst (Build zero_SchemaProxy (Some 11) None) :: (string, unit) SchemaProxy"
  let ?sp' = "zero_SchemaProxy\<lparr>vn := Some 11, rendered := Some 0\<rparr> :: (string, unit) SchemaProxy"
  let ?h' = "\<lparr>schemas = [0 \<mapsto> ''schema''], next_schema = 1\<rparr> :: string schema_store"
  have first: "Schema string_builder ?sp empty_schemas = (Some 0, ?sp', ?h')"
    by (simp add: Schema_def Build_def zero_SchemaProxy_def string_builder_def empty_schemas_def)
  have f1: "rendered (zero_SchemaProxy :: (string, unit) SchemaProxy) = None"
    by (simp add: zero_SchemaProxy_def)
  have f2: "snd (schema_Build string_builder
                  (fst (low_BuildModel string_builder (vn (zero_SchemaProxy :: (string, unit) SchemaProxy))
                         (zero_Schema string_builder)))
                  (vn (zero_SchemaProxy :: (string, unit) SchemaProxy))
                  (sp_idx (zero_SchemaProxy :: (string, unit) SchemaProxy))) = Some (ErrorString ''no node'')"
    by (simp add: zero_SchemaProxy_def string_builder_def)
  have c1: "rendered ?sp = None" by (simp add: Build_def zero_SchemaProxy_def)
  have c2: "buildError ?sp = None" by (simp add: Build_def zero_SchemaProxy_def)
  have c3: "snd (schema_Build string_builder
                  (fst (low_BuildModel string_builder (vn ?sp) (zero_Schema string_builder)))
                  (vn ?sp) (sp_idx ?sp)) = None"
    by (simp add: Build_def zero_SchemaProxy_def string_builder_def)
  note t = Schema_memoized[where b' = string_builder and h'' = ?h' and hf = empty_schemas
      and hc = empty_schemas and root = "Some 11" and i = None]
  from t[OF first f1 f2 c1 c2 c3]
  show ?thesis using first
    by (auto simp: GetBuildError_def)
qed

section \<open>Inline bundling: what a pass writes\<close>

lemma world_of_logger_Debug [simp]:
  "nodes (world_of (logger_Debug idx msg ref w)) = nodes w"
  "arrays (world_of (logger_Debug idx msg ref w)) = arrays w"
  by (auto simp: logger_Debug_def split: option.splits)

lemma world_of_logger_Warn [simp]:
  "nodes (world_of (logger_Warn idx msg ref w)) = nodes w"
  "arrays (world_of (logger_Warn idx msg ref w)) = arrays w"
  by (auto simp: logger_Warn_def split: option.splits)

lemma compact_reference_arrays:
  "arrays (world_of (compact_reference is P idx root sq w)) = arrays w"
  by (auto simp: compact_reference_def assign_Content_def split: option.splits)

lemma compact_reference_Kind_Value:
  "Kind (nodes (world_of (compact_reference is P idx root sq w)) n) = Kind (nodes w n)
   \<and> Value (nodes (world_of (compact_reference is P idx root sq w)) n) = Value (nodes w n)"
  by (auto simp: compact_reference_def assign_Content_def split: option.splits)

lemma compact_reference_other:
  "n \<noteq> Node sq \<Longrightarrow> nodes (world_of (compact_reference is P idx root sq w)) n = nodes w n"
  by (auto simp: compact_reference_def assign_Content_def split: option.splits)

lemma compact_reference_pinned:
  "FullDefinition sq \<in> P \<Longrightarrow> nodes (world_of (compact_reference is P idx root sq w)) = nodes w"
  by (auto simp: compact_reference_def)

lemma useCorrectIndex_circular:
  "Circular m \<Longrightarrow> useCorrectIndex is w r0 sq (Some m) = Some m"
  by (induction "is") auto

lemma mappedReference_of_circular:
  "GetMappedReferences idx (FullDefinition sq) = Some m \<Longrightarrow> Circular m \<Longrightarrow>
   mappedReference_of is idx root sq w = Some m"
  by (auto simp: mappedReference_of_def useCorrectIndex_circular split: list.splits)

lemma compact_reference_circular:
  "GetMappedReferences idx (FullDefinition sq) = Some m \<Longrightarrow> Circular m \<Longrightarrow>
   nodes (world_of (compact_reference is P idx root sq w)) = nodes w"
  by (auto simp: compact_reference_def mappedReference_of_circular)

text \<open>A node is left as it was by a pass when every reference sited at it is skipped.\<close>

lemma compact_references_node:
  assumes "\<And>sq w'. sq \<in> set sqs \<Longrightarrow> Node sq = a \<Longrightarrow>
             nodes (world_of (compact_reference is P idx root sq w')) a = nodes w' a"
  shows "nodes (world_of (compact_references is P idx root sqs w)) a = nodes w a"
  using assms
proof (induction sqs arbitrary: w)
  case Nil
  then show ?case by simp
next
  case (Cons sq sqs)
  have step: "nodes (world_of (compact_reference is P idx root sq w)) a = nodes w a"
    using Cons.prems[of sq w] compact_reference_other[of a sq "is" P idx root w]
    by (cases "Node sq = a") auto
  show ?case
  proof (cases "compact_reference is P idx root sq w")
    case (Normal w')
    have "nodes (world_of (compact_references is P idx root sqs w')) a = nodes w' a"
      using Cons.IH[of w'] Cons.prems by simp
    with step Normal show ?thesis by simp
  next
    case (Abrupt w')
    with step show ?thesis by simp
  qed
qed

lemma compact_references_arrays:
  "arrays (world_of (compact_references is P idx root sqs w)) = arrays w"
proof (induction sqs arbitrary: w)
  case Nil
  then show ?case by simp
next
  case (Cons sq sqs)
  show ?case
    using compact_reference_arrays[of "is" P idx root sq w] Cons.IH
    by (cases "compact_reference is P idx root sq w") auto
qed

lemma compact_references_Kind_Value:
  "Kind (nodes (world_of (compact_references is P idx root sqs w)) n) = Kind (nodes w n)
   \<and> Value (nodes (world_of (compact_references is P idx root sqs w)) n) = Value (nodes w n)"
proof (induction sqs arbitrary: w)
  case Nil
  then show ?case by simp
next
  case (Cons sq sqs)
  show ?case
    using compact_reference_Kind_Value[of "is" P idx root sq w n] Cons.IH
    by (cases "compact_reference is P idx root sq w") auto
qed

lemma compact_indexes_node:
  assumes "\<And>idx sq w'. idx \<in> set ixs \<Longrightarrow> sq \<in> set (GetRawReferencesSequenced idx) \<Longrightarrow>
             Node sq = a \<Longrightarrow>
             nodes (world_of (compact_reference is P idx False sq w')) a = nodes w' a"
  shows "nodes (world_of (compact_indexes is P ixs w)) a = nodes w a"
  using assms
proof (induction ixs arbitrary: w)
  case Nil
  then show ?case by simp
next
  case (Cons idx ixs)
  have step: "nodes (world_of (compact is P idx False w)) a = nodes w a"
    unfolding compact_def by (rule compact_references_node) (use Cons.prems in auto)
  show ?case
  proof (cases "compact is P idx False w")
    case (Normal w')
    have "nodes (world_of (compact_indexes is P ixs w')) a = nodes w' a"
      using Cons.IH[of w'] Cons.prems by simp
    with step Normal show ?thesis by simp
  next
    case (Abrupt w')
    with step show ?thesis by simp
  qed
qed

lemma compact_indexes_arrays:
  "arrays (world_of (compact_indexes is P ixs w)) = arrays w"
proof (induction ixs arbitrary: w)
  case Nil
  then show ?case by simp
next
  case (Cons idx ixs)
  show ?case
    using compact_references_arrays[of "is" P idx False "GetRawReferencesSequenced idx" w] Cons.IH
    by (cases "compact is P idx False w") (auto simp: compact_def)
qed

lemma compact_indexes_Kind_Value:
  "Kind (nodes (world_of (compact_indexes is P ixs w)) n) = Kind (nodes w n)
   \<and> Value (nodes (world_of (compact_indexes is P ixs w)) n) = Value (nodes w n)"
proof (induction ixs arbitrary: w)
  case Nil
  then show ?case by simp
next
  case (Cons idx ixs)
  show ?case
    using compact_references_Kind_Value[of "is" P idx False "GetRawReferencesSequenced idx" w n]
          Cons.IH
    by (cases "compact is P idx False w") (auto simp: compact_def)
qed

lemma bundle_world:
  "snd (bundle_inline render fuel model w) =
     (case model of None \<Rightarrow> w | Some m \<Rightarrow>
        (case Rolodex m of None \<Rightarrow> w | Some r \<Rightarrow>
           (case preserveRefs fuel r w of Returned P \<Rightarrow> compacted r P w | _ \<Rightarrow> w)))"
  by (auto simp: bundle_inline_def compacted_def split: option.splits outcome.splits exec.splits)

lemma compacted_node:
  assumes "\<And>idx sq root w'. idx \<in> set (GetRootIndex r # GetIndexes r) \<Longrightarrow>
             sq \<in> set (GetRawReferencesSequenced idx) \<Longrightarrow> Node sq = a \<Longrightarrow>
             nodes (world_of (compact_reference (GetIndexes r) P idx root sq w')) a = nodes w' a"
  shows "nodes (compacted r P w) a = nodes w a"
proof -
  have 1: "nodes (world_of (compact_indexes (GetIndexes r) P (GetIndexes r) w)) a = nodes w a"
    by (rule compact_indexes_node) (use assms in auto)
  have 2: "nodes (world_of (compact (GetIndexes r) P (GetRootIndex r) True w1)) a = nodes w1 a"
    for w1
    unfolding compact_def by (rule compact_references_node) (use assms in auto)
  show ?thesis using 1 2
    by (cases "compact_indexes (GetIndexes r) P (GetIndexes r) w") (auto simp: compacted_def)
qed

lemma compacted_arrays: "arrays (compacted r P w) = arrays w"
  using compact_indexes_arrays[of "GetIndexes r" P "GetIndexes r" w]
        compact_references_arrays[of "GetIndexes r" P "GetRootIndex r" True]
  by (cases "compact_indexes (GetIndexes r) P (GetIndexes r) w")
     (auto simp: compacted_def compact_def)

lemma compacted_Kind_Value:
  "Kind (nodes (compacted r P w) n) = Kind (nodes w n)
   \<and> Value (nodes (compacted r P w) n) = Value (nodes w n)"
  using compact_indexes_Kind_Value[of "GetIndexes r" P "GetIndexes r" w n]
        compact_references_Kind_Value[of "GetIndexes r" P "GetRootIndex r" True]
  by (cases "compact_indexes (GetIndexes r) P (GetIndexes r) w")
     (auto simp: compacted_def compact_def)

subsection \<open>The example documents, evaluated\<close>

lemmas store_defs =
  store_def scalar_def branch_def reference_def children_def elems_def

lemmas tree_defs =
  store_defs tree_world_def tree_site_def self_site_def name_site_def items_site_def
  tree_ext_def tree_root_def tree_rolodex_def tree_model_def

lemmas pets_defs =
  store_defs pets_world_def cat_site_def pets_search_def pets_ext_def pets_root_def
  pets_rolodex_def pets_model_def

lemmas walk_defs =
  preserveRefs_def unwrap_document_def note_key_def pin_union_def walkDiscriminatorMapping_def
  walkUnionRefs_def pin_def eval_nat_numeral

lemmas compact_defs =
  compacted_def compact_def compact_reference_def localRootReference_def mappedReference_of_def
  logger_Debug_def logger_Warn_def assign_Content_def

lemma tree_preserveRefs: "preserveRefs 4 tree_rolodex tree_world = Returned {}"
  by (simp add: tree_defs walk_defs)

lemma pets_preserveRefs:
  "preserveRefs 4 pets_rolodex pets_world = Returned {''/pets.yaml#/Cat'', ''/pets.yaml#/Dog''}"
  by (simp add: pets_defs walk_defs insert_commute)

lemma tree_compacted_logs:
  "logs (compacted tree_rolodex {} tree_world) =
     [(0, LevelWarn, ''[bundler] skipping circular reference'', ''ref'', ''/ext.yaml#/Tree''),
      (0, LevelDebug, ''[bundler] skipping local root reference'', ''ref'', ''#/self''),
      (0, LevelDebug, ''[bundler] skipping local root reference'', ''ref'', ''#/tree'')]"
  by (simp add: tree_defs compact_defs)

lemma tree_compacted_Content:
  "Content (nodes (compacted tree_rolodex {} tree_world) 2) =
     \<lparr>sl_array = 5, sl_off = 0, sl_len = 2\<rparr>
   \<and> Content (nodes (compacted tree_rolodex {} tree_world) 11) =
     \<lparr>sl_array = 5, sl_off = 0, sl_len = 2\<rparr>
   \<and> Content (nodes (compacted tree_rolodex {} tree_world) 17) =
     \<lparr>sl_array = 7, sl_off = 0, sl_len = 2\<rparr>"
  by (simp add: tree_defs compact_defs)

lemma tree_bundle_world:
  "snd (bundle_inline render 4 (Some tree_model) tree_world) = compacted tree_rolodex {} tree_world"
  using tree_preserveRefs by (simp add: bundle_world tree_model_def)

section \<open>Inline bundling: the claims on reference sites\<close>

text \<open>
  C1. A reference whose full definition is in the preserve set is skipped by the body of
  the loop, in the pass over any index and in the pass over the root: the nodes and the
  arrays of the store are as they were. For the whole of \<open>bundle\<close>: when every reference
  sited at a node has its full definition in the preserve set the walk collected, the node
  is after the call what it was before, its children are the same nodes, and no node has
  changed kind or value, so the \<open>$ref\<close> key and its literal are still there for the
  rendering.
\<close>

theorem bundle_keeps_pinned_reference:
  assumes "Rolodex m = Some r" and "preserveRefs fuel r w = Returned P"
      and "\<forall>idx \<in> set (GetRootIndex r # GetIndexes r).
             \<forall>sq \<in> set (GetRawReferencesSequenced idx). Node sq = a \<longrightarrow> FullDefinition sq \<in> P"
      and "FullDefinition sequenced \<in> P'"
  shows "nodes (world_of (compact_reference indexes P' idx root sequenced w0)) = nodes w0
       \<and> arrays (world_of (compact_reference indexes P' idx root sequenced w0)) = arrays w0
       \<and> nodes (snd (bundle_inline render fuel (Some m) w)) a = nodes w a
       \<and> children (snd (bundle_inline render fuel (Some m) w)) a = children w a
       \<and> (\<forall>c. Kind (nodes (snd (bundle_inline render fuel (Some m) w)) c) = Kind (nodes w c)
              \<and> Value (nodes (snd (bundle_inline render fuel (Some m) w)) c) = Value (nodes w c))"
proof -
  have w': "snd (bundle_inline render fuel (Some m) w) = compacted r P w"
    using assms(1,2) by (simp add: bundle_world)
  have n: "nodes (compacted r P w) a = nodes w a"
    by (rule compacted_node) (use assms(3) compact_reference_pinned in auto)
  show ?thesis
    using assms(4) n w' compacted_arrays[of r P w] compacted_Kind_Value[of r P w]
    by (simp add: compact_reference_pinned compact_reference_arrays children_def elems_def)
qed

theorem bundle_keeps_pinned_reference_witness:
  "Rolodex pets_model = Some pets_rolodex
   \<and> preserveRefs 4 pets_rolodex pets_world = Returned {''/pets.yaml#/Cat'', ''/pets.yaml#/Dog''}
   \<and> FullDefinition cat_site \<in> {''/pets.yaml#/Cat'', ''/pets.yaml#/Dog''}
   \<and> Node cat_site = 5
   \<and> nodes (snd (bundle_inline render_scalars 4 (Some pets_model) pets_world)) 5 = nodes pets_world 5
   \<and> children (snd (bundle_inline render_scalars 4 (Some pets_model) pets_world)) 5 = [6, 7]
   \<and> Value (nodes (snd (bundle_inline render_scalars 4 (Some pets_model) pets_world)) 6) = ''$ref''
   \<and> Value (nodes (snd (bundle_inline render_scalars 4 (Some pets_model) pets_world)) 7) =
       ''pets.yaml#/Cat''"
proof -
  let ?P = "{''/pets.yaml#/Cat'', ''/pets.yaml#/Dog''}"
  have h1: "Rolodex pets_model = Some pets_rolodex" by (simp add: pets_model_def)
  have h3: "\<forall>idx \<in> set (GetRootIndex pets_rolodex # GetIndexes pets_rolodex).
             \<forall>sq \<in> set (GetRawReferencesSequenced idx). Node sq = 5 \<longrightarrow> FullDefinition sq \<in> ?P"
    by (simp add: pets_defs)
  have h4: "FullDefinition cat_site \<in> ?P" by (simp add: pets_defs)
  have n: "Node cat_site = 5" by (simp add: pets_defs)
  have c: "children pets_world 5 = [6, 7] \<and> Value (nodes pets_world 6) = ''$ref''
           \<and> Value (nodes pets_world 7) = ''pets.yaml#/Cat''"
    by (simp add: pets_defs)
  note t = bundle_keeps_pinned_reference[where render = render_scalars and indexes = "[pets_ext]"
      and idx = pets_root and root = True and ?w0.0 = pets_world]
  from t[OF h1 pets_preserveRefs h3 h4] h1 pets_preserveRefs h4 n c
  show ?thesis by simp
qed

text \<open>
  C3, as the code has it. A reference whose mapped reference is marked circular is never
  inlined: the body of the loop leaves the nodes and the arrays of the store as they were,
  in every pass, and a node at which only such references are sited is after \<open>bundle\<close>
  what it was before. The warning is logged when the reference reaches the circular
  branch: it is not a local reference of the root document in the root pass, its full
  definition is not in the preserve set, and the index has a logger. The step then ends
  normally with that one record added to the log.
\<close>

theorem circular_reference_kept:
  assumes circ: "GetMappedReferences idx (FullDefinition sequenced) = Some mr" "Circular mr"
      and reached: "\<not> localRootReference root sequenced" "FullDefinition sequenced \<notin> P"
                   "GetLogger idx = Some l"
      and model: "Rolodex m = Some r"
      and sited: "\<forall>i \<in> set (GetRootIndex r # GetIndexes r).
                   \<forall>sq \<in> set (GetRawReferencesSequenced i). Node sq = a \<longrightarrow>
                     (\<exists>c. GetMappedReferences i (FullDefinition sq) = Some c \<and> Circular c)"
  shows "nodes (world_of (compact_reference indexes P' idx root' sequenced w)) = nodes w
       \<and> arrays (world_of (compact_reference indexes P' idx root' sequenced w)) = arrays w
       \<and> compact_reference indexes P idx root sequenced w =
           Normal (w\<lparr>logs := logs w @ [(l, LevelWarn, ''[bundler] skipping circular reference'',
                                        ''ref'', FullDefinition sequenced)]\<rparr>)
       \<and> nodes (snd (bundle_inline render fuel (Some m) w1)) a = nodes w1 a"
proof -
  have step: "compact_reference indexes P idx root sequenced w =
           Normal (w\<lparr>logs := logs w @ [(l, LevelWarn, ''[bundler] skipping circular reference'',
                                        ''ref'', FullDefinition sequenced)]\<rparr>)"
    using circ reached
    by (simp add: compact_reference_def mappedReference_of_circular logger_Warn_def)
  have kept: "nodes (compacted r Q w1) a = nodes w1 a" for Q
    by (rule compacted_node) (use sited compact_reference_circular in fastforce)
  have whole: "nodes (snd (bundle_inline render fuel (Some m) w1)) a = nodes w1 a"
    using model kept by (simp add: bundle_world split: outcome.splits)
  show ?thesis
    using circ step whole
    by (simp add: compact_reference_circular compact_reference_arrays)
qed

theorem circular_reference_kept_witness:
  "GetMappedReferences tree_ext (FullDefinition items_site) =
     Some (reference ''/ext.yaml#/Tree'' ''#/Tree'' 11 ''/ext.yaml'' True)
   \<and> \<not> localRootReference False items_site
   \<and> GetLogger tree_ext = Some 0
   \<and> Node items_site = 13
   \<and> compact_reference [tree_ext] {} tree_ext False items_site tree_world =
       Normal (tree_world\<lparr>logs := [(0, LevelWarn, ''[bundler] skipping circular reference'',
                                     ''ref'', ''/ext.yaml#/Tree'')]\<rparr>)
   \<and> nodes (snd (bundle_inline render_scalars 4 (Some tree_model) tree_world)) 13 =
       nodes tree_world 13"
proof -
  let ?mr = "reference ''/ext.yaml#/Tree'' ''#/Tree'' 11 ''/ext.yaml'' True"
  have c1: "GetMappedReferences tree_ext (FullDefinition items_site) = Some ?mr"
    by (simp add: tree_defs)
  have c2: "Circular ?mr" by (simp add: reference_def)
  have r1: "\<not> localRootReference False items_site" by (simp add: localRootReference_def split: list.splits)
  have r2: "FullDefinition items_site \<notin> {}" by simp
  have r3: "GetLogger tree_ext = Some 0" by (simp add: tree_defs)
  have m: "Rolodex tree_model = Some tree_rolodex" by (simp add: tree_model_def)
  have s: "\<forall>i \<in> set (GetRootIndex tree_rolodex # GetIndexes tree_rolodex).
             \<forall>sq \<in> set (GetRawReferencesSequenced i). Node sq = 13 \<longrightarrow>
               (\<exists>c. GetMappedReferences i (FullDefinition sq) = Some c \<and> Circular c)"
    by (simp add: tree_defs)
  have n: "Node items_site = 13" by (simp add: tree_defs)
  have l: "logs tree_world = []" "FullDefinition items_site = ''/ext.yaml#/Tree''"
    by (simp_all add: tree_defs)
  note t = circular_reference_kept[where indexes = "[tree_ext]" and P' = "{}" and root' = False
      and w = tree_world and render = render_scalars and fuel = 4 and ?w1.0 = tree_world]
  from t[OF c1 c2 r1 r2 r3 m s] c1 r1 r3 n l
  show ?thesis by simp
qed

text \<open>
  C3, as it is stated, fails on a circular reference of the root document to itself: in
  the root pass it is skipped as a local reference before the circular branch is reached,
  with a debug record and no warning. After \<open>bundle\<close> the log holds one warning, which is
  for the circular reference of the external document.
\<close>

theorem circular_root_reference_not_warned:
  "GetMappedReferences tree_root (FullDefinition self_site) =
     Some (reference ''/root.yaml#/self'' ''#/self'' 4 ''/root.yaml'' True)
   \<and> compact_reference [tree_ext] {} tree_root True self_site tree_world =
       Normal (tree_world\<lparr>logs := [(0, LevelDebug, ''[bundler] skipping local root reference'',
                                     ''ref'', ''#/self'')]\<rparr>)
   \<and> logs (snd (bundle_inline render_scalars 4 (Some tree_model) tree_world)) =
     [(0, LevelWarn, ''[bundler] skipping circular reference'', ''ref'', ''/ext.yaml#/Tree''),
      (0, LevelDebug, ''[bundler] skipping local root reference'', ''ref'', ''#/self''),
      (0, LevelDebug, ''[bundler] skipping local root reference'', ''ref'', ''#/tree'')]"
proof -
  have a: "GetMappedReferences tree_root (FullDefinition self_site) =
     Some (reference ''/root.yaml#/self'' ''#/self'' 4 ''/root.yaml'' True)"
    by (simp add: tree_defs)
  have b: "compact_reference [tree_ext] {} tree_root True self_site tree_world =
       Normal (tree_world\<lparr>logs := [(0, LevelDebug, ''[bundler] skipping local root reference'',
                                     ''ref'', ''#/self'')]\<rparr>)"
    by (simp add: tree_defs compact_defs)
  show ?thesis using a b tree_compacted_logs by (simp add: tree_bundle_world)
qed

text \<open>
  C2, as the code has it. For a reference that is not skipped (it is not a local reference
  of the root document in the root pass, and its full definition is not in the preserve
  set), when the mapped reference the body works with is there and not circular, the step
  assigns the target node's \<open>Content\<close> to the site's node and nothing else: the site has
  the target's children, in the target's order, through the very slice of the target, so
  the two nodes share one child list. Outside the root pass the mapped reference is the
  index's own; in the root pass it is the component found by the first index at the
  reference's file, when there is one.
\<close>

theorem reference_inlined_by_assignment:
  assumes "\<not> localRootReference root sequenced" and "FullDefinition sequenced \<notin> P"
      and "mappedReference_of indexes idx root sequenced w = Some mr" and "\<not> Circular mr"
  shows "compact_reference indexes P idx root sequenced w =
           Normal (assign_Content (Node sequenced) (Node mr) w)
       \<and> Content (nodes (assign_Content (Node sequenced) (Node mr) w) (Node sequenced)) =
           Content (nodes w (Node mr))
       \<and> children (assign_Content (Node sequenced) (Node mr) w) (Node sequenced) =
           children w (Node mr)
       \<and> arrays (assign_Content (Node sequenced) (Node mr) w) = arrays w
       \<and> logs (assign_Content (Node sequenced) (Node mr) w) = logs w
       \<and> (\<forall>n. n \<noteq> Node sequenced \<longrightarrow>
              nodes (assign_Content (Node sequenced) (Node mr) w) n = nodes w n)
       \<and> mappedReference_of indexes idx False sequenced w =
           GetMappedReferences idx (FullDefinition sequenced)"
  using assms
  by (auto simp: compact_reference_def assign_Content_def children_def elems_def
        mappedReference_of_def split: list.splits)

theorem reference_inlined_by_assignment_witness:
  "\<not> localRootReference True tree_site
   \<and> mappedReference_of [tree_ext] tree_root True tree_site tree_world =
       Some (reference ''/ext.yaml#/Tree'' ''#/Tree'' 11 ''/ext.yaml'' False)
   \<and> Node tree_site = 2
   \<and> compact_reference [tree_ext] {} tree_root True tree_site tree_world =
       Normal (assign_Content 2 11 tree_world)
   \<and> children tree_world 2 = [5, 6]
   \<and> children (assign_Content 2 11 tree_world) 2 = [12, 13]"
proof -
  let ?mr = "reference ''/ext.yaml#/Tree'' ''#/Tree'' 11 ''/ext.yaml'' False"
  have h1: "\<not> localRootReference True tree_site"
    by (simp add: tree_defs localRootReference_def)
  have h2: "FullDefinition tree_site \<notin> {}" by simp
  have h3: "mappedReference_of [tree_ext] tree_root True tree_site tree_world = Some ?mr"
    by (simp add: tree_defs mappedReference_of_def)
  have h4: "\<not> Circular ?mr" by (simp add: reference_def)
  have n: "Node tree_site = 2" "Node ?mr = 11" by (simp_all add: tree_defs)
  have c: "children tree_world 2 = [5, 6]" "children tree_world 11 = [12, 13]"
    by (simp_all add: tree_defs)
  from reference_inlined_by_assignment[OF h1 h2 h3 h4] h1 h3 n c
  show ?thesis by simp
qed

text \<open>
  C2, as it is stated, fails twice on the example. The reference of \<open>tree\<close> to the external
  document is inlined by assignment: after \<open>bundle\<close> the site, node 2, and the target, node
  11, hold the same slice on the same backing array, so the site's child list is the
  target's and not a copy of it. And the reference of \<open>name\<close>, node 17, whose mapped
  reference is there and is not circular, is a local reference of the root document: it is
  skipped, and the node keeps its own children.
\<close>

theorem inlined_children_shared_and_local_skipped:
  "GetMappedReferences tree_root (FullDefinition tree_site) =
     Some (reference ''/ext.yaml#/Tree'' ''#/Tree'' 11 ''/ext.yaml'' False)
   \<and> Content (nodes (snd (bundle_inline render_scalars 4 (Some tree_model) tree_world)) 2) =
       Content (nodes (snd (bundle_inline render_scalars 4 (Some tree_model) tree_world)) 11)
   \<and> sl_array (Content (nodes (snd (bundle_inline render_scalars 4 (Some tree_model) tree_world)) 2)) = 5
   \<and> FullDefinition name_site \<notin> {}
   \<and> GetMappedReferences tree_root (FullDefinition name_site) =
     Some (reference ''/root.yaml#/tree'' ''#/tree'' 2 ''/root.yaml'' False)
   \<and> Content (nodes (snd (bundle_inline render_scalars 4 (Some tree_model) tree_world)) 17) =
       Content (nodes tree_world 17)
   \<and> children (snd (bundle_inline render_scalars 4 (Some tree_model) tree_world)) 17 = [18, 19]"
proof -
  have a: "GetMappedReferences tree_root (FullDefinition tree_site) =
     Some (reference ''/ext.yaml#/Tree'' ''#/Tree'' 11 ''/ext.yaml'' False)"
    "GetMappedReferences tree_root (FullDefinition name_site) =
     Some (reference ''/root.yaml#/tree'' ''#/tree'' 2 ''/root.yaml'' False)"
    by (simp_all add: tree_defs)
  have b: "Content (nodes tree_world 17) = \<lparr>sl_array = 7, sl_off = 0, sl_len = 2\<rparr>"
    "arrays tree_world 7 = [18, 19]"
    by (simp_all add: tree_defs)
  have c: "arrays (compacted tree_rolodex {} tree_world) = arrays tree_world"
    by (rule compacted_arrays)
  show ?thesis
    using a b c tree_compacted_Content
    by (simp add: tree_bundle_world children_def elems_def)
qed

section \<open>The walk that collects the preserve set\<close>

subsection \<open>It ends on a well-formed tree\<close>

lemma keyed_even: "keyed Q xs \<Longrightarrow> even (length xs)"
  by (induction Q xs rule: keyed.induct) auto

lemma entries_total:
  "even (length xs) \<Longrightarrow> \<exists>p'. walkDiscriminatorMapping_entries idx w xs p = Returned p'"
  by (induction idx w xs p rule: walkDiscriminatorMapping_entries.induct) auto

lemma keys_total:
  "keyed (\<lambda>k v. Value (nodes w k) = ''mapping'' \<longrightarrow> even (length (children w v))) xs \<Longrightarrow>
   \<exists>p'. walkDiscriminatorMapping_keys idx w xs p = Returned p'"
proof (induction idx w xs p rule: walkDiscriminatorMapping_keys.induct)
  case (1 idx w pinned)
  then show ?case by simp
next
  case (2 idx w k pinned)
  then show ?case by simp
next
  case (3 idx w k v rest pinned)
  show ?case
  proof (cases "Value (nodes w k) = ''mapping''")
    case True
    with 3(3) have "even (length (children w v))" by simp
    then obtain p1 where p1: "walkDiscriminatorMapping_entries idx w (children w v) pinned = Returned p1"
      using entries_total by blast
    have "\<exists>p'. walkDiscriminatorMapping_keys idx w rest p1 = Returned p'"
      using 3(1)[OF True p1] 3(3) by simp
    with True p1 show ?thesis by simp
  next
    case False
    with 3(2)[OF False] 3(3) show ?thesis by simp
  qed
qed

lemma walkDiscriminatorMapping_total:
  "discriminator_ok w d \<Longrightarrow> \<exists>p'. walkDiscriminatorMapping idx w d p = Returned p'"
  using keys_total by (auto simp: walkDiscriminatorMapping_def discriminator_ok_def)

lemma item_total:
  "even (length xs) \<Longrightarrow> \<exists>p'. walkUnionRefs_item idx w xs p = Returned p'"
  by (induction idx w xs p rule: walkUnionRefs_item.induct) auto

lemma items_total:
  "(\<And>item. item \<in> set xs \<Longrightarrow> Kind (nodes w item) = MappingNode \<Longrightarrow> even (length (children w item))) \<Longrightarrow>
   \<exists>p'. walkUnionRefs_items idx w xs p = Returned p'"
proof (induction xs arbitrary: p)
  case Nil
  then show ?case by simp
next
  case (Cons item xs)
  show ?case
  proof (cases "Kind (nodes w item) = MappingNode")
    case True
    then obtain p1 where p1: "walkUnionRefs_item idx w (children w item) p = Returned p1"
      using item_total Cons.prems by (meson list.set_intros(1))
    from Cons.IH[of p1] Cons.prems obtain p2 where "walkUnionRefs_items idx w xs p1 = Returned p2"
      by auto
    with True p1 show ?thesis by simp
  next
    case False
    from Cons.IH[of p] Cons.prems obtain p2 where "walkUnionRefs_items idx w xs p = Returned p2"
      by auto
    with False show ?thesis by simp
  qed
qed

lemma unwrap_document_other: "Kind (nodes w n) \<noteq> DocumentNode \<Longrightarrow> unwrap_document w n = n"
  by (simp add: unwrap_document_def split: list.splits)

lemma tree_ok_pairs:
  "tree_ok d w n \<Longrightarrow> Kind (nodes w n) = MappingNode \<Longrightarrow> even (length (children w n))"
  by (cases d) (auto simp: unwrap_document_other dest: keyed_even)

lemma walkUnionRefs_total:
  assumes "seq = None \<or> (\<exists>s d. seq = Some s \<and> tree_ok d w s)"
  shows "\<exists>p'. walkUnionRefs idx w seq p = Returned p'"
proof (cases seq)
  case None
  then show ?thesis by (simp add: walkUnionRefs_def)
next
  case (Some s)
  with assms obtain d where d: "tree_ok d w s" by auto
  show ?thesis
  proof (cases "Kind (nodes w s) = SequenceNode")
    case False
    with Some show ?thesis by (simp add: walkUnionRefs_def)
  next
    case True
    from d obtain d' where d': "d = Suc d'" by (cases d) auto
    from True have u: "unwrap_document w s = s" by (simp add: unwrap_document_other)
    from d d' True u have all: "list_all (tree_ok d' w) (children w s)" by simp
    have "\<exists>p'. walkUnionRefs_items idx w (children w s) p = Returned p'"
    proof (rule items_total)
      fix item assume "item \<in> set (children w s)" "Kind (nodes w item) = MappingNode"
      with all show "even (length (children w item))"
        using tree_ok_pairs by (auto simp: list_all_iff)
    qed
    with True Some show ?thesis by (simp add: walkUnionRefs_def)
  qed
qed

lemma collect_sequence_total:
  "(\<And>c p. c \<in> set cs \<Longrightarrow> \<exists>p'. walk c p = Returned p') \<Longrightarrow>
   \<exists>p'. collect_sequence walk cs p = Returned p'"
proof (induction cs arbitrary: p)
  case Nil
  then show ?case by simp
next
  case (Cons c cs)
  from Cons.prems[of c p] obtain p1 where p1: "walk c p = Returned p1" by auto
  from Cons.IH[of p1] Cons.prems obtain p2 where "collect_sequence walk cs p1 = Returned p2"
    by auto
  with p1 show ?case by simp
qed

lemma collect_pairs_total:
  assumes "keyed (\<lambda>k v. tree_ok d w v
                       \<and> (Value (nodes w k) = ''discriminator'' \<longrightarrow> discriminator_ok w v)) kids"
      and "\<And>v p. tree_ok d w v \<Longrightarrow> \<exists>p'. walk v p = Returned p'"
      and "locals_ok d w l"
  shows "\<exists>l' p'. collect_pairs walk w kids l p = Returned (l', p') \<and> locals_ok d w l'"
  using assms
proof (induction walk w kids l p rule: collect_pairs.induct)
  case (1 walk w l pinned)
  then show ?case by simp
next
  case (2 walk w k l pinned)
  then show ?case by simp
next
  case (3 walk w k v rest l pinned)
  from 3(2) have v: "tree_ok d w v" and dk: "Value (nodes w k) = ''discriminator'' \<longrightarrow> discriminator_ok w v"
    and rest: "keyed (\<lambda>k v. tree_ok d w v
                       \<and> (Value (nodes w k) = ''discriminator'' \<longrightarrow> discriminator_ok w v)) rest"
    by auto
  from 3(3)[OF v, of pinned] obtain p1 where p1: "walk v pinned = Returned p1" by auto
  have l': "locals_ok d w (note_key (Value (nodes w k)) v l)"
    using 3(4) v dk by (auto simp: locals_ok_def note_key_def split: prod.splits)
  from 3(1)[OF p1 rest 3(3) l'] p1 show ?case by simp
qed

lemma pin_union_total:
  assumes "locals_ok d w l"
  shows "\<exists>p'. pin_union idx w l p = Returned p'"
proof -
  obtain dn u a where l: "l = (dn, u, a)" by (cases l) auto
  show ?thesis
  proof (cases dn)
    case None
    with l show ?thesis by (simp add: pin_union_def)
  next
    case (Some x)
    with assms l have "discriminator_ok w x" by (simp add: locals_ok_def)
    then obtain p1 where p1: "walkDiscriminatorMapping idx w x p = Returned p1"
      using walkDiscriminatorMapping_total by blast
    have "u = None \<or> (\<exists>s d. u = Some s \<and> tree_ok d w s)"
      using assms l by (cases u) (auto simp: locals_ok_def)
    then obtain p2 where p2: "walkUnionRefs idx w u p1 = Returned p2"
      using walkUnionRefs_total by blast
    have "a = None \<or> (\<exists>s d. a = Some s \<and> tree_ok d w s)"
      using assms l by (cases a) (auto simp: locals_ok_def)
    then obtain p3 where p3: "walkUnionRefs idx w a p2 = Returned p3"
      using walkUnionRefs_total by blast
    from l Some p1 p2 p3 show ?thesis by (simp add: pin_union_def)
  qed
qed

lemma walk_total:
  "tree_ok d w n \<Longrightarrow> d \<le> fuel \<Longrightarrow>
   \<exists>p'. collectDiscriminatorMappingValues fuel idx w n p = Returned p'"
proof (induction d arbitrary: n p fuel)
  case 0
  then show ?case by simp
next
  case (Suc d)
  from Suc.prems(2) obtain f where f: "fuel = Suc f" "d \<le> f" by (cases fuel) auto
  let ?n = "unwrap_document w n"
  have rec: "\<And>v p. tree_ok d w v \<Longrightarrow> \<exists>p'. collectDiscriminatorMappingValues f idx w v p = Returned p'"
    using Suc.IH f(2) by blast
  show ?case
  proof (cases "Kind (nodes w ?n)")
    case SequenceNode
    with Suc.prems(1) have "list_all (tree_ok d w) (children w ?n)" by simp
    then have "\<exists>p'. collect_sequence (collectDiscriminatorMappingValues f idx w) (children w ?n) p = Returned p'"
      using rec by (intro collect_sequence_total) (auto simp: list_all_iff)
    with SequenceNode f(1) show ?thesis by simp
  next
    case MappingNode
    with Suc.prems(1) have k: "keyed (\<lambda>k v. tree_ok d w v
                       \<and> (Value (nodes w k) = ''discriminator'' \<longrightarrow> discriminator_ok w v))
            (children w ?n)" by simp
    have l0: "locals_ok d w (None, None, None)" by (simp add: locals_ok_def)
    from collect_pairs_total[where walk = "collectDiscriminatorMappingValues f idx w" and p = p,
          OF k rec l0]
    obtain l' p1 where c: "collect_pairs (collectDiscriminatorMappingValues f idx w) w (children w ?n)
                (None, None, None) p = Returned (l', p1)" and l': "locals_ok d w l'"
      by blast
    from pin_union_total[OF l'] obtain p2 where "pin_union idx w l' p1 = Returned p2" by blast
    with MappingNode f(1) c show ?thesis by simp
  qed (use f(1) in auto)
qed

subsection \<open>What it adds\<close>

lemma pin_found: "pin idx rv p = p \<union> found idx rv"
  by (auto simp: pin_def found_def split: option.splits)

lemma entries_set:
  "walkDiscriminatorMapping_entries idx w xs p = Returned p' \<Longrightarrow>
   p' = p \<union> (\<Union>(k', v') \<in> set (pairs xs). found idx (Value (nodes w v')))"
  by (induction idx w xs p rule: walkDiscriminatorMapping_entries.induct) (auto simp: pin_found)

lemma keys_set:
  "walkDiscriminatorMapping_keys idx w xs p = Returned p' \<Longrightarrow>
   p' = p \<union> (\<Union>(k, v) \<in> set (pairs xs).
              if Value (nodes w k) = ''mapping''
              then (\<Union>(k', v') \<in> set (pairs (children w v)). found idx (Value (nodes w v')))
              else {})"
proof (induction idx w xs p arbitrary: p' rule: walkDiscriminatorMapping_keys.induct)
  case (1 idx w pinned)
  then show ?case by simp
next
  case (2 idx w k pinned)
  then show ?case by (simp split: if_splits)
next
  case (3 idx w k v rest pinned)
  show ?case
  proof (cases "Value (nodes w k) = ''mapping''")
    case True
    with 3(3) obtain p1 where p1: "walkDiscriminatorMapping_entries idx w (children w v) pinned = Returned p1"
      and r: "walkDiscriminatorMapping_keys idx w rest p1 = Returned p'"
      by (auto split: outcome.splits)
    from 3(1)[OF True p1 r] entries_set[OF p1] True show ?thesis by auto
  next
    case False
    with 3(3) have r: "walkDiscriminatorMapping_keys idx w rest pinned = Returned p'" by simp
    from 3(2)[OF False r] False show ?thesis by auto
  qed
qed

lemma walkDiscriminatorMapping_set:
  "walkDiscriminatorMapping idx w d p = Returned p' \<Longrightarrow> p' = p \<union> mapping_targets idx w d"
  using keys_set[of idx w "children w d" p p']
  by (auto simp: walkDiscriminatorMapping_def mapping_targets_def split: if_splits)

lemma item_set:
  "walkUnionRefs_item idx w xs p = Returned p' \<Longrightarrow>
   p' = p \<union> (\<Union>(k, v) \<in> set (pairs xs).
                if Value (nodes w k) = ''$ref'' \<and> Kind (nodes w v) = ScalarNode
                then found idx (Value (nodes w v)) else {})"
proof (induction idx w xs p arbitrary: p' rule: walkUnionRefs_item.induct)
  case (1 idx w pinned)
  then show ?case by simp
next
  case (2 idx w k pinned)
  then show ?case by simp
next
  case (3 idx w k v rest pinned)
  show ?case
  proof (cases "Value (nodes w k) \<noteq> ''$ref'' \<or> Kind (nodes w v) \<noteq> ScalarNode")
    case True
    with 3(3) have r: "walkUnionRefs_item idx w rest pinned = Returned p'" by simp
    from 3(1)[OF True r] True show ?thesis by auto
  next
    case False
    with 3(3) have r: "walkUnionRefs_item idx w rest (pin idx (Value (nodes w v)) pinned) = Returned p'"
      by simp
    from 3(2)[OF False r] False show ?thesis by (auto simp: pin_found)
  qed
qed

lemma items_set:
  "walkUnionRefs_items idx w xs p = Returned p' \<Longrightarrow>
   p' = p \<union> (\<Union>item \<in> set xs.
                  if Kind (nodes w item) = MappingNode
                  then (\<Union>(k, v) \<in> set (pairs (children w item)).
                          if Value (nodes w k) = ''$ref'' \<and> Kind (nodes w v) = ScalarNode
                          then found idx (Value (nodes w v)) else {})
                  else {})"
proof (induction xs arbitrary: p p')
  case Nil
  then show ?case by simp
next
  case (Cons item xs)
  show ?case
  proof (cases "Kind (nodes w item) = MappingNode")
    case True
    with Cons.prems obtain p1 where p1: "walkUnionRefs_item idx w (children w item) p = Returned p1"
      and r: "walkUnionRefs_items idx w xs p1 = Returned p'"
      by (auto split: outcome.splits)
    from Cons.IH[OF r] item_set[OF p1] True show ?thesis by auto
  next
    case False
    with Cons.prems have r: "walkUnionRefs_items idx w xs p = Returned p'" by simp
    from Cons.IH[OF r] False show ?thesis by auto
  qed
qed

lemma walkUnionRefs_set:
  "walkUnionRefs idx w seq p = Returned p' \<Longrightarrow> p' = p \<union> union_ref_targets idx w seq"
  using items_set[of idx w _ p p']
  by (auto simp: walkUnionRefs_def union_ref_targets_def split: option.splits if_splits)

lemma collect_pairs_locals:
  "collect_pairs walk w kids (d0, u0, a0) p = Returned (l', p') \<Longrightarrow>
   l' = (pick (last_value w ''discriminator'' kids) d0, pick (last_value w ''oneOf'' kids) u0,
         pick (last_value w ''anyOf'' kids) a0)
   \<and> collect_sequence walk (map snd (pairs kids)) p = Returned p'"
proof (induction walk w kids "(d0, u0, a0)" p arbitrary: d0 u0 a0 l' p' rule: collect_pairs.induct)
  case (1 walk w pinned)
  then show ?case by (simp add: pick_def)
next
  case (2 walk w k pinned)
  then show ?case by simp
next
  case (3 walk w k v rest pinned)
  from 3(2) obtain p1 where p1: "walk v pinned = Returned p1"
    and r: "collect_pairs walk w rest (note_key (Value (nodes w k)) v (d0, u0, a0)) p1 = Returned (l', p')"
    by (auto split: outcome.splits)
  obtain d1 u1 a1 where n: "note_key (Value (nodes w k)) v (d0, u0, a0) = (d1, u1, a1)"
    by (metis prod.exhaust)
  from 3(1)[OF p1 n] r n
  have ih: "l' = (pick (last_value w ''discriminator'' rest) d1, pick (last_value w ''oneOf'' rest) u1,
         pick (last_value w ''anyOf'' rest) a1)
         \<and> collect_sequence walk (map snd (pairs rest)) p1 = Returned p'" by simp
  from n have "d1 = (if Value (nodes w k) = ''discriminator'' then Some v else d0)"
    "u1 = (if Value (nodes w k) = ''oneOf'' then Some v else u0)"
    "a1 = (if Value (nodes w k) = ''anyOf'' then Some v else a0)"
    by (auto simp: note_key_def split: if_splits)
  with ih p1 show ?case by (auto simp: pick_def split: option.splits)
qed

lemma collect_indexes_total:
  "\<forall>idx \<in> set ixs. tree_ok d w (GetRootNode idx) \<Longrightarrow> d \<le> fuel \<Longrightarrow>
   \<exists>p'. collect_indexes fuel w ixs p = Returned p'"
proof (induction ixs arbitrary: p)
  case Nil
  then show ?case by simp
next
  case (Cons idx ixs)
  from Cons.prems obtain p1
    where p1: "collectDiscriminatorMappingValues fuel idx w (GetRootNode idx) p = Returned p1"
    using walk_total[of d w "GetRootNode idx" fuel idx p] by auto
  from Cons.IH[of p1] Cons.prems obtain p2 where "collect_indexes fuel w ixs p1 = Returned p2"
    by auto
  with p1 show ?case by simp
qed

lemma compact_indexes_no_references:
  "\<forall>idx \<in> set ixs. GetRawReferencesSequenced idx = [] \<Longrightarrow> compact_indexes is P ixs w = Normal w"
  by (induction ixs) (auto simp: compact_def)

section \<open>Inline bundling: a document without references\<close>

text \<open>
  When no index of the rolodex, the root index included, lists a reference, \<open>bundle\<close>
  writes nothing: whatever its outcome, the store it leaves is the store it was given,
  nodes, arrays and log. On a document whose trees are well formed, with fuel for their
  depth, it returns, and what it returns is the rendering of the model over that unchanged
  store; \<open>BundleDocument\<close> is the same call.
\<close>

lemma bundle_without_references:
  assumes model: "Rolodex m = Some r"
      and none: "\<forall>idx \<in> set (GetRootIndex r # GetIndexes r). GetRawReferencesSequenced idx = []"
      and trees: "\<forall>idx \<in> set (GetRootIndex r # GetIndexes r). tree_ok d w (GetRootNode idx)"
      and fuel: "d \<le> fuel"
  shows "bundle_inline render fuel (Some m) w = (Returned (render m w), w)
       \<and> BundleDocument render fuel (Some m) w = (Returned (render m w), w)
       \<and> snd (bundle_inline render fuel' (Some m) w') = w'"
proof -
  have c1: "compact_indexes (GetIndexes r) P (GetIndexes r) w0 = Normal w0" for P w0
    using none by (intro compact_indexes_no_references) simp
  have c2: "compact (GetIndexes r) P (GetRootIndex r) True w0 = Normal w0" for P w0
    using none by (simp add: compact_def)
  have frame: "snd (bundle_inline render fuel' (Some m) w') = w'"
    using model c1 c2 by (simp add: bundle_world compacted_def split: outcome.splits)
  from collect_indexes_total[OF trees fuel, of "{}"] obtain P
    where P: "preserveRefs fuel r w = Returned P" by (auto simp: preserveRefs_def)
  have "bundle_inline render fuel (Some m) w = (Returned (render m w), w)"
    using model P c1 c2 by (simp add: bundle_inline_def)
  with frame show ?thesis by (simp add: BundleDocument_def)
qed

lemma bundle_without_references_plain:
  "Rolodex plain_model = Some \<lparr>GetRootIndex = plain_root, GetIndexes = []\<rparr>
   \<and> GetRawReferencesSequenced plain_root = []
   \<and> tree_ok 4 plain_world (GetRootNode plain_root)
   \<and> bundle_inline render_scalars 4 (Some plain_model) plain_world =
       (Returned (Some ''openapi3.1.0infotitleT'', None), plain_world)
   \<and> BundleDocument render_scalars 4 (Some plain_model) plain_world =
       (Returned (Some ''openapi3.1.0infotitleT'', None), plain_world)"
proof -
  let ?r = "\<lparr>GetRootIndex = plain_root, GetIndexes = []\<rparr>"
  have m: "Rolodex plain_model = Some ?r" by (simp add: plain_model_def)
  have n: "\<forall>idx \<in> set (GetRootIndex ?r # GetIndexes ?r). GetRawReferencesSequenced idx = []"
    by (simp add: plain_root_def)
  have t0: "tree_ok 4 plain_world (GetRootNode plain_root)"
    by (simp add: plain_root_def plain_world_def store_defs unwrap_document_def
          eval_nat_numeral discriminator_ok_def)
  then have t: "\<forall>idx \<in> set (GetRootIndex ?r # GetIndexes ?r). tree_ok 4 plain_world (GetRootNode idx)"
    by simp
  have f: "(4::nat) \<le> 4" by simp
  have r: "render_scalars plain_model plain_world = (Some ''openapi3.1.0infotitleT'', None)"
    by (simp add: render_scalars_def plain_model_def plain_root_def plain_world_def store_defs
          eval_nat_numeral)
  from bundle_without_references[OF m n t f, of render_scalars 4 plain_world] m n t0 r
  show ?thesis by simp
qed

text \<open>
  C7 says that on every document without references inline bundling writes nothing, so
  that its output is the rendering of the unchanged document. Nothing is written indeed,
  but there need not be an output. The document here has no reference, and under its
  \<open>discriminator\<close> the key \<open>mapping\<close> holds a sequence of one item. \<open>walkDiscriminatorMapping\<close>
  tests the kind of the discriminator node and not the kind of the node under \<open>mapping\<close>:
  it reads \<open>Content[j+1]\<close> of that one-item sequence, out of range, and panics, where
  \<open>walkUnionRefs\<close> tests the kind of every item before it reads its pairs. With any fuel
  that reaches the depth of the document, \<open>bundle\<close> and \<open>BundleDocument\<close> panic and
  return nothing; the store is as it was.
\<close>

theorem bundle_panics_without_references:
  "GetRawReferencesSequenced odd_root = []
   \<and> Kind (nodes odd_world 5) = MappingNode
   \<and> children odd_world 5 = [6, 7]
   \<and> Value (nodes odd_world 6) = ''mapping''
   \<and> Kind (nodes odd_world 7) = SequenceNode
   \<and> children odd_world 7 = [8]
   \<and> walkDiscriminatorMapping odd_root odd_world 5 {} = Panicked
   \<and> bundle_inline render (Suc (Suc (Suc (Suc k)))) (Some odd_model) odd_world =
       (Panicked, odd_world)
   \<and> BundleDocument render (Suc (Suc (Suc (Suc k)))) (Some odd_model) odd_world =
       (Panicked, odd_world)"
  by (simp add: odd_world_def odd_root_def odd_model_def store_defs bundle_inline_def
        BundleDocument_def preserveRefs_def unwrap_document_def note_key_def pin_union_def
        walkDiscriminatorMapping_def eval_nat_numeral)

section \<open>The preserve set: which nodes add to it\<close>

text \<open>
  C4, as the code has it. At a mapping node of a well-formed tree the walk returns, and
  the preserve set it returns is the set returned by the walk of the node's values, in
  order, to which the node itself adds something exactly when it has a \<open>discriminator\<close>
  key: then it adds the targets the index finds for the discriminator's mapping, when the
  discriminator has one, and the targets the index finds for the \<open>$ref\<close> of the items of
  its \<open>oneOf\<close> and of its \<open>anyOf\<close>, whether the discriminator has a mapping or not, each
  as the found index's absolute path followed by the definition. A node without a
  \<open>discriminator\<close> key adds nothing, and neither does a node that is not a mapping: a
  sequence passes on what the walk of its items returns, any other node the set it got.
\<close>

theorem discriminator_pins:
  assumes tree: "tree_ok d w n" "d \<le> Suc fuel"
      and mapping: "Kind (nodes w (unwrap_document w n)) = MappingNode"
      and other: "Kind (nodes w (unwrap_document w n')) \<noteq> MappingNode"
  shows "(\<exists>p1. collect_sequence (collectDiscriminatorMappingValues fuel idx w)
                 (map snd (pairs (children w (unwrap_document w n)))) p = Returned p1
            \<and> collectDiscriminatorMappingValues (Suc fuel) idx w n p = Returned
                (case last_value w ''discriminator'' (children w (unwrap_document w n)) of
                   None \<Rightarrow> p1
                 | Some dn \<Rightarrow>
                     p1 \<union> mapping_targets idx w dn
                        \<union> union_ref_targets idx w
                             (last_value w ''oneOf'' (children w (unwrap_document w n)))
                        \<union> union_ref_targets idx w
                             (last_value w ''anyOf'' (children w (unwrap_document w n)))))
       \<and> collectDiscriminatorMappingValues (Suc fuel) idx w n' p =
           (if Kind (nodes w (unwrap_document w n')) = SequenceNode
            then collect_sequence (collectDiscriminatorMappingValues fuel idx w)
                   (children w (unwrap_document w n')) p
            else Returned p)"
proof -
  let ?kids = "children w (unwrap_document w n)"
  let ?walk = "collectDiscriminatorMappingValues fuel idx w"
  from walk_total[OF tree, of idx p] obtain p'
    where p': "collectDiscriminatorMappingValues (Suc fuel) idx w n p = Returned p'" by blast
  with mapping obtain l p1
    where cp: "collect_pairs ?walk w ?kids (None, None, None) p = Returned (l, p1)"
      and pu: "pin_union idx w l p1 = Returned p'"
    by (auto split: outcome.splits)
  from collect_pairs_locals[OF cp]
  have l: "l = (last_value w ''discriminator'' ?kids, last_value w ''oneOf'' ?kids,
                last_value w ''anyOf'' ?kids)"
    and cs: "collect_sequence ?walk (map snd (pairs ?kids)) p = Returned p1"
    by (simp_all add: pick_def split: option.splits)
  have "p' = (case last_value w ''discriminator'' ?kids of
                None \<Rightarrow> p1
              | Some dn \<Rightarrow> p1 \<union> mapping_targets idx w dn
                    \<union> union_ref_targets idx w (last_value w ''oneOf'' ?kids)
                    \<union> union_ref_targets idx w (last_value w ''anyOf'' ?kids))"
  proof (cases "last_value w ''discriminator'' ?kids")
    case None
    with pu l show ?thesis by (simp add: pin_union_def)
  next
    case (Some dn)
    with pu l obtain q1 q2 where q1: "walkDiscriminatorMapping idx w dn p1 = Returned q1"
      and q2: "walkUnionRefs idx w (last_value w ''oneOf'' ?kids) q1 = Returned q2"
      and q3: "walkUnionRefs idx w (last_value w ''anyOf'' ?kids) q2 = Returned p'"
      by (auto simp: pin_union_def split: outcome.splits)
    from walkDiscriminatorMapping_set[OF q1] walkUnionRefs_set[OF q2] walkUnionRefs_set[OF q3] Some
    show ?thesis by simp
  qed
  with p' cs have A: "\<exists>p1. collect_sequence ?walk (map snd (pairs ?kids)) p = Returned p1
            \<and> collectDiscriminatorMappingValues (Suc fuel) idx w n p = Returned
                (case last_value w ''discriminator'' ?kids of
                   None \<Rightarrow> p1
                 | Some dn \<Rightarrow> p1 \<union> mapping_targets idx w dn
                        \<union> union_ref_targets idx w (last_value w ''oneOf'' ?kids)
                        \<union> union_ref_targets idx w (last_value w ''anyOf'' ?kids))"
    by blast
  have B: "collectDiscriminatorMappingValues (Suc fuel) idx w n' p =
           (if Kind (nodes w (unwrap_document w n')) = SequenceNode
            then collect_sequence ?walk (children w (unwrap_document w n')) p
            else Returned p)"
    using other by (cases "Kind (nodes w (unwrap_document w n'))") auto
  from A B show ?thesis by blast
qed

theorem discriminator_pins_witness:
  "tree_ok 4 pets_world 0
   \<and> Kind (nodes pets_world (unwrap_document pets_world 0)) = MappingNode
   \<and> Kind (nodes pets_world (unwrap_document pets_world 7)) = ScalarNode
   \<and> last_value pets_world ''discriminator'' (children pets_world 0) = Some 4
   \<and> mapping_targets pets_root pets_world 4 = {''/pets.yaml#/Dog''}
   \<and> last_value pets_world ''oneOf'' (children pets_world 0) = Some 2
   \<and> union_ref_targets pets_root pets_world (Some 2) = {''/pets.yaml#/Cat''}
   \<and> last_value pets_world ''anyOf'' (children pets_world 0) = None
   \<and> collectDiscriminatorMappingValues 4 pets_root pets_world 0 {} =
       Returned {''/pets.yaml#/Cat'', ''/pets.yaml#/Dog''}
   \<and> collectDiscriminatorMappingValues 4 pets_root pets_world 7 {} = Returned {}"
proof -
  have t: "tree_ok 4 pets_world 0"
    by (simp add: pets_defs unwrap_document_def eval_nat_numeral discriminator_ok_def)
  have f: "(4::nat) \<le> Suc 3" by simp
  have u: "unwrap_document pets_world 0 = 0" "unwrap_document pets_world 7 = 7"
    by (simp_all add: pets_defs unwrap_document_def)
  have k: "Kind (nodes pets_world (unwrap_document pets_world 0)) = MappingNode"
    "Kind (nodes pets_world (unwrap_document pets_world 7)) = ScalarNode"
    by (simp_all add: u) (simp_all add: pets_defs)
  then have k': "Kind (nodes pets_world (unwrap_document pets_world 7)) \<noteq> MappingNode" by simp
  have lv: "last_value pets_world ''discriminator'' (children pets_world 0) = Some 4"
    "last_value pets_world ''oneOf'' (children pets_world 0) = Some 2"
    "last_value pets_world ''anyOf'' (children pets_world 0) = None"
    by (simp_all add: pets_defs)
  have mt: "mapping_targets pets_root pets_world 4 = {''/pets.yaml#/Dog''}"
    by (simp add: mapping_targets_def found_def pets_defs)
  have ut: "union_ref_targets pets_root pets_world (Some 2) = {''/pets.yaml#/Cat''}"
    by (simp add: union_ref_targets_def found_def pets_defs)
  have ev: "collectDiscriminatorMappingValues 4 pets_root pets_world 0 {} =
       Returned {''/pets.yaml#/Cat'', ''/pets.yaml#/Dog''}"
    "collectDiscriminatorMappingValues 4 pets_root pets_world 7 {} = Returned {}"
    by (simp_all add: pets_defs walk_defs insert_commute)
  from discriminator_pins[OF t f k(1) k', of pets_root "{}"] t k lv mt ut ev
  show ?thesis by simp
qed

text \<open>
  C4, as it is stated, fails on a union whose discriminator has a property name and no
  mapping: the \<open>$ref\<close> of its \<open>oneOf\<close> is added to the preserve set all the same, because
  the test is on the \<open>discriminator\<close> key alone.
\<close>

theorem discriminator_without_mapping_pins:
  "last_value union_world ''discriminator'' (children union_world 0) = Some 4
   \<and> children union_world 4 = [8, 9]
   \<and> Value (nodes union_world 8) = ''propertyName''
   \<and> last_value union_world ''mapping'' (children union_world 4) = None
   \<and> mapping_targets pets_root union_world 4 = {}
   \<and> collectDiscriminatorMappingValues 4 pets_root union_world 0 {} =
       Returned {''/pets.yaml#/Cat''}"
proof -
  have a: "last_value union_world ''discriminator'' (children union_world 0) = Some 4"
    "children union_world 4 = [8, 9]" "Value (nodes union_world 8) = ''propertyName''"
    "last_value union_world ''mapping'' (children union_world 4) = None"
    by (simp_all add: pets_defs union_world_def)
  have b: "mapping_targets pets_root union_world 4 = {}"
    by (simp add: mapping_targets_def pets_defs union_world_def)
  have c: "collectDiscriminatorMappingValues 4 pets_root union_world 0 {} =
       Returned {''/pets.yaml#/Cat''}"
    by (simp add: pets_defs union_world_def walk_defs)
  from a b c show ?thesis by simp
qed

end
